theory Spec2Isabelle
  imports Complex_Main "HOL-Library.Word" "HOL-Library.Log_Nat"
begin

section \<open>Sample values and PCM conversion (scripts/audio.js)\<close>

text \<open>
  The elements of a \<^verbatim>\<open>Float32Array\<close> are IEEE single-precision numbers. A finite one is
  modelled by the real number it denotes; the two infinities and NaN are separate
  constructors, because \<^verbatim>\<open>Math.min\<close>, \<^verbatim>\<open>Math.max\<close>, \<^verbatim>\<open>>=\<close> and the store into an
  \<^verbatim>\<open>Int16Array\<close> treat them specially. (The sign of zero is not tracked: no operation
  below distinguishes \<^verbatim>\<open>-0\<close> from \<^verbatim>\<open>0\<close>.)
\<close>

datatype jsnum = NaN | NegInf | Fin real | PosInf

text \<open>The relational operator \<^verbatim>\<open><\<close> on numbers: every comparison with NaN is false.\<close>

fun js_lt :: "jsnum \<Rightarrow> jsnum \<Rightarrow> bool" where
  "js_lt NaN _ = False"
| "js_lt _ NaN = False"
| "js_lt (Fin a) (Fin b) = (a < b)"
| "js_lt _ NegInf = False"
| "js_lt NegInf _ = True"
| "js_lt PosInf _ = False"
| "js_lt _ PosInf = True"

text \<open>\<^verbatim>\<open>a >= b\<close> is false when either side is NaN, and otherwise the negation of \<^verbatim>\<open>a < b\<close>.\<close>

definition js_ge :: "jsnum \<Rightarrow> jsnum \<Rightarrow> bool" where
  "js_ge a b = (a \<noteq> NaN \<and> b \<noteq> NaN \<and> \<not> js_lt a b)"

text \<open>\<^verbatim>\<open>Math.min(a, b)\<close> and \<^verbatim>\<open>Math.max(a, b)\<close>: NaN if an argument is NaN.\<close>

definition Math_min :: "jsnum \<Rightarrow> jsnum \<Rightarrow> jsnum" where
  "Math_min a b = (if a = NaN \<or> b = NaN then NaN else if js_lt b a then b else a)"

definition Math_max :: "jsnum \<Rightarrow> jsnum \<Rightarrow> jsnum" where
  "Math_max a b = (if a = NaN \<or> b = NaN then NaN else if js_lt a b then b else a)"

text \<open>
  The product \<^verbatim>\<open>a * b\<close>. On finite operands it is the exact product: the only products
  the program forms are a single-precision sample in \<open>[-1, 1]\<close> (24 significant bits)
  times 32767 or 32768 (at most 16 bits), which a double (53 bits) holds without rounding.
\<close>

fun js_times :: "jsnum \<Rightarrow> jsnum \<Rightarrow> jsnum" where
  "js_times NaN _ = NaN"
| "js_times _ NaN = NaN"
| "js_times (Fin a) (Fin b) = Fin (a * b)"
| "js_times (Fin a) PosInf = (if a = 0 then NaN else if 0 < a then PosInf else NegInf)"
| "js_times (Fin a) NegInf = (if a = 0 then NaN else if 0 < a then NegInf else PosInf)"
| "js_times PosInf (Fin b) = (if b = 0 then NaN else if 0 < b then PosInf else NegInf)"
| "js_times NegInf (Fin b) = (if b = 0 then NaN else if 0 < b then NegInf else PosInf)"
| "js_times PosInf PosInf = PosInf"
| "js_times NegInf NegInf = PosInf"
| "js_times PosInf NegInf = NegInf"
| "js_times NegInf PosInf = NegInf"

text \<open>
  \<^verbatim>\<open>Math.round(x)\<close>: the integer nearest to \<open>x\<close>, a tie going to the larger one, that is
  \<open>\<lfloor>x + 1/2\<rfloor>\<close>, which is what \<^const>\<open>round\<close> computes.
\<close>

fun Math_round :: "jsnum \<Rightarrow> jsnum" where
  "Math_round (Fin x) = Fin (of_int (round x))"
| "Math_round v = v"

text \<open>
  The store \<^verbatim>\<open>int16Array[i] = v\<close> converts \<open>v\<close> with ToInt16: NaN and the infinities become
  0, a finite number is truncated toward zero and reduced modulo \<open>2^16\<close>.
\<close>

definition trunc :: "real \<Rightarrow> int" where
  "trunc x = (if 0 \<le> x then \<lfloor>x\<rfloor> else \<lceil>x\<rceil>)"

fun ToInt16 :: "jsnum \<Rightarrow> 16 word" where
  "ToInt16 (Fin x) = word_of_int (trunc x)"
| "ToInt16 _ = 0"

text \<open>
  The body of the loop of \<^verbatim>\<open>convertToPCM\<close>, for the element \<open>x = float32Array[i]\<close>:
  \<^verbatim>\<open>
    const sample = Math.max(-1, Math.min(1, float32Array[i]));
    int16Array[i] = sample >= 0 ? Math.round(sample * 32767) : Math.round(sample * 32768);
  \<close>
\<close>

definition pcm_sample :: "jsnum \<Rightarrow> 16 word" where
  "pcm_sample x =
     (let sample = Math_max (Fin (- 1)) (Math_min (Fin 1) x)
      in ToInt16 (if js_ge sample (Fin 0)
                  then Math_round (js_times sample (Fin 32767))
                  else Math_round (js_times sample (Fin 32768))))"

text \<open>
  The loop \<^verbatim>\<open>for (let i = 0; i < float32Array.length; i++)\<close>, writing into the array
  allocated by \<^verbatim>\<open>new Int16Array(float32Array.length)\<close> (all zeros).
\<close>

function convert_loop :: "jsnum list \<Rightarrow> nat \<Rightarrow> 16 word list \<Rightarrow> 16 word list" where
  "convert_loop float32Array i int16Array =
     (if i < length float32Array
      then convert_loop float32Array (Suc i) (int16Array[i := pcm_sample (float32Array ! i)])
      else int16Array)"
  by pat_completeness auto
termination
  by (relation "measure (\<lambda>(float32Array, i, int16Array). length float32Array - i)") auto

declare convert_loop.simps [simp del]

text \<open>
  \<^verbatim>\<open>AudioProcessor.convertToPCM\<close>. The result is the buffer of the \<^verbatim>\<open>Int16Array\<close>, given
  here by its 16-bit elements. \<^verbatim>\<open>FileAudioProcessor.convertToPCM\<close> has the same body.
\<close>

definition convertToPCM :: "jsnum list \<Rightarrow> 16 word list" where
  "convertToPCM float32Array =
     convert_loop float32Array 0 (replicate (length float32Array) 0)"

definition file_convertToPCM :: "jsnum list \<Rightarrow> 16 word list" where
  "file_convertToPCM float32Array =
     convert_loop float32Array 0 (replicate (length float32Array) 0)"

text \<open>
  The conversion as the specification words it, on a finite sample: clamp to \<open>[-1, 1]\<close>,
  scale by 32767 if non-negative and by 32768 if negative, round to the nearest integer.
\<close>

definition spec_clamp :: "real \<Rightarrow> real" where
  "spec_clamp x = max (- 1) (min 1 x)"

definition spec_scale :: "real \<Rightarrow> real" where
  "spec_scale c = (if 0 \<le> c then c * 32767 else c * 32768)"

definition spec_convert :: "real \<Rightarrow> int" where
  "spec_convert x = round (spec_scale (spec_clamp x))"

text \<open>An error thrown by the program or by the runtime, with its message.\<close>

datatype js_error = Error string

section \<open>Resampling (scripts/audio.js)\<close>

text \<open>
  The sample rates and the array length are non-negative integers, and the arithmetic on
  them is done in double precision: \<^verbatim>\<open>a / b\<close> and \<^verbatim>\<open>a * b\<close> give the double nearest to the
  exact result, a tie going to the even significand. A positive finite double is given
  by an integer significand \<open>m\<close> and an exponent \<open>e\<close>, and stands for \<open>m \<cdot> 2\<^sup>e\<close>. (The
  values computed here are far from the overflow and underflow thresholds.)
\<close>

datatype double = Dbl (dbl_m: int) (dbl_e: int)

text \<open>The number a double stands for.\<close>

definition dbl_value :: "double \<Rightarrow> real" where
  "dbl_value d =
     (if 0 \<le> dbl_e d then of_int (dbl_m d) * 2 ^ nat (dbl_e d)
      else of_int (dbl_m d) / 2 ^ nat (- dbl_e d))"

text \<open>The integer nearest to \<open>n / d\<close>, for \<open>d > 0\<close>, a tie going to the even one.\<close>

definition round_half_even :: "int \<Rightarrow> int \<Rightarrow> int" where
  "round_half_even n d =
     (let f = n div d; r = n mod d
      in if 2 * r < d then f
         else if d < 2 * r then f + 1
         else if even f then f else f + 1)"

text \<open>\<open>\<lfloor>log\<^sub>2 (p / q)\<rfloor>\<close> for positive \<open>p\<close> and \<open>q\<close>, from their bit lengths.\<close>

definition floor_log2 :: "int \<Rightarrow> int \<Rightarrow> int" where
  "floor_log2 p q =
     (let k = bitlen p - bitlen q
      in if (if 0 \<le> k then q * 2 ^ nat k \<le> p else q \<le> p * 2 ^ nat (- k)) then k else k - 1)"

text \<open>
  The double nearest to \<open>p / q\<close>, for \<open>p \<ge> 0\<close> and \<open>q > 0\<close>: the significand has 53 bits,
  \<open>2\<^sup>5\<^sup>2 \<le> m < 2\<^sup>5\<^sup>3\<close>, unless the value is 0.
\<close>

definition nearest_double :: "int \<Rightarrow> int \<Rightarrow> double" where
  "nearest_double p q =
     (if p = 0 then Dbl 0 0
      else
        let e = floor_log2 p q - 52;
            m = (if 0 \<le> e then round_half_even p (q * 2 ^ nat e)
                 else round_half_even (p * 2 ^ nat (- e)) q)
        in if m = 2 ^ 53 then Dbl (2 ^ 52) (e + 1) else Dbl m e)"

text \<open>
  The three operations the program uses: \<^verbatim>\<open>originalSampleRate / targetSampleRate\<close>,
  \<^verbatim>\<open>audioData.length / ratio\<close> and \<^verbatim>\<open>i * ratio\<close>; and \<^verbatim>\<open>Math.round\<close> of a double,
  \<open>\<lfloor>x + 1/2\<rfloor>\<close>.
\<close>

definition nat_div_nat :: "nat \<Rightarrow> nat \<Rightarrow> double" where
  "nat_div_nat a b = nearest_double (int a) (int b)"

definition nat_div_double :: "nat \<Rightarrow> double \<Rightarrow> double" where
  "nat_div_double n d =
     (if 0 \<le> dbl_e d then nearest_double (int n) (dbl_m d * 2 ^ nat (dbl_e d))
      else nearest_double (int n * 2 ^ nat (- dbl_e d)) (dbl_m d))"

definition nat_times_double :: "nat \<Rightarrow> double \<Rightarrow> double" where
  "nat_times_double i d =
     (if 0 \<le> dbl_e d then nearest_double (int i * dbl_m d * 2 ^ nat (dbl_e d)) 1
      else nearest_double (int i * dbl_m d) (2 ^ nat (- dbl_e d)))"

definition Math_round_double :: "double \<Rightarrow> int" where
  "Math_round_double d =
     (if 0 \<le> dbl_e d then dbl_m d * 2 ^ nat (dbl_e d)
      else (2 * dbl_m d + 2 ^ nat (- dbl_e d)) div (2 * 2 ^ nat (- dbl_e d)))"

text \<open>
  The read \<^verbatim>\<open>audioData[index]\<close> gives \<^verbatim>\<open>undefined\<close> outside the array, and \<^verbatim>\<open>v || 0\<close> is 0
  when \<open>v\<close> is \<^verbatim>\<open>undefined\<close>, NaN or zero.
\<close>

definition array_get :: "jsnum list \<Rightarrow> int \<Rightarrow> jsnum option" where
  "array_get xs index =
     (if 0 \<le> index \<and> index < int (length xs) then Some (xs ! nat index) else None)"

definition or_zero :: "jsnum option \<Rightarrow> jsnum" where
  "or_zero v = (case v of None \<Rightarrow> Fin 0 | Some x \<Rightarrow> if x = NaN then Fin 0 else x)"

text \<open>
  The loop \<^verbatim>\<open>for (let i = 0; i < newLength; i++)\<close> of \<^verbatim>\<open>resampleAudio\<close>, writing into
  the array allocated by \<^verbatim>\<open>new Float32Array(newLength)\<close> (all zeros). The samples are
  single-precision values read from one \<^verbatim>\<open>Float32Array\<close> and stored into another, so they
  are stored as they are.
\<close>

function resample_loop ::
  "jsnum list \<Rightarrow> double \<Rightarrow> nat \<Rightarrow> nat \<Rightarrow> jsnum list \<Rightarrow> jsnum list" where
  "resample_loop audioData ratio newLength i resampledData =
     (if i < newLength
      then resample_loop audioData ratio newLength (Suc i)
             (resampledData[i := or_zero (array_get audioData
                                   (Math_round_double (nat_times_double i ratio)))])
      else resampledData)"
  by pat_completeness auto
termination
  by (relation "measure (\<lambda>(audioData, ratio, newLength, i, resampledData). newLength - i)") auto

declare resample_loop.simps [simp del]

text \<open>
  \<^verbatim>\<open>FileAudioProcessor.resampleAudio\<close>. With a target rate of 0 the ratio is infinite and
  the new length 0. With an original rate of 0 the ratio is 0; the new length is then
  NaN for an empty input, which allocates an empty array, and infinite otherwise, for
  which the allocation throws a RangeError. (The limit of the engine on the length of an
  array is not modelled.)
\<close>

definition resampleAudio :: "jsnum list \<Rightarrow> nat \<Rightarrow> nat \<Rightarrow> js_error + jsnum list" where
  "resampleAudio audioData originalSampleRate targetSampleRate =
     (if originalSampleRate = targetSampleRate then Inr audioData
      else if targetSampleRate = 0 then Inr []
      else if originalSampleRate = 0
      then (if length audioData = 0 then Inr [] else Inl (Error ''RangeError''))
      else
        let ratio = nat_div_nat originalSampleRate targetSampleRate;
            newLength = nat (Math_round_double (nat_div_double (length audioData) ratio))
        in Inr (resample_loop audioData ratio newLength 0 (replicate newLength (Fin 0))))"

text \<open>
  The length and the index as the specification words them, in exact arithmetic:
  \<open>round(inputLength \<cdot> targetRate / sourceRate)\<close> and \<open>round(i \<cdot> sourceRate / targetRate)\<close>.
\<close>

definition spec_resample_length :: "nat \<Rightarrow> nat \<Rightarrow> nat \<Rightarrow> int" where
  "spec_resample_length inputLength sourceRate targetRate =
     round (real inputLength * real targetRate / real sourceRate)"

definition spec_resample_index :: "nat \<Rightarrow> nat \<Rightarrow> nat \<Rightarrow> int" where
  "spec_resample_index i sourceRate targetRate =
     round (real i * real sourceRate / real targetRate)"

text \<open>
  The length and the index as the program computes them:
  \<^verbatim>\<open>Math.round(audioData.length / ratio)\<close> and \<^verbatim>\<open>Math.round(i * ratio)\<close>.
\<close>

definition resample_length :: "nat \<Rightarrow> nat \<Rightarrow> nat \<Rightarrow> int" where
  "resample_length inputLength originalSampleRate targetSampleRate =
     Math_round_double
       (nat_div_double inputLength (nat_div_nat originalSampleRate targetSampleRate))"

definition resample_index :: "nat \<Rightarrow> nat \<Rightarrow> nat \<Rightarrow> int" where
  "resample_index i originalSampleRate targetSampleRate =
     Math_round_double (nat_times_double i (nat_div_nat originalSampleRate targetSampleRate))"

section \<open>The capture callback and its pacing (scripts/audio.js)\<close>

text \<open>
  The fields of \<^verbatim>\<open>AudioProcessor\<close> that the capture path reads or writes.
  \<open>initialized\<close> stands for \<^verbatim>\<open>this.audioContext && this.mediaStream\<close>, and
  \<open>onAudioChunk_set\<close> for \<^verbatim>\<open>this.onAudioChunk\<close> being a function rather than null.
\<close>

record audio_processor =
  initialized :: bool
  ap_isRecording :: bool
  lastChunkTime :: int
  onAudioChunk_set :: bool

text \<open>The constructor, and \<^verbatim>\<open>setAudioChunkCallback\<close>.\<close>

definition new_AudioProcessor :: audio_processor where
  "new_AudioProcessor =
     \<lparr>initialized = False, ap_isRecording = False, lastChunkTime = 0, onAudioChunk_set = False\<rparr>"

definition setAudioChunkCallback :: "audio_processor \<Rightarrow> audio_processor" where
  "setAudioChunkCallback ap = ap\<lparr>onAudioChunk_set := True\<rparr>"

text \<open>\<^verbatim>\<open>AudioProcessor.startRecording\<close> and \<^verbatim>\<open>AudioProcessor.stopRecording\<close>.\<close>

definition ap_startRecording :: "audio_processor \<Rightarrow> js_error + audio_processor" where
  "ap_startRecording ap =
     (if \<not> initialized ap then Inl (Error ''Audio not initialized'')
      else Inr (ap\<lparr>ap_isRecording := True, lastChunkTime := 0\<rparr>))"

definition ap_stopRecording :: "audio_processor \<Rightarrow> audio_processor" where
  "ap_stopRecording ap = ap\<lparr>ap_isRecording := False\<rparr>"

text \<open>
  The handler \<^verbatim>\<open>scriptProcessor.onaudioprocess\<close>, run once per capture callback.
  \<open>inputData\<close> is channel 0 of the input buffer and \<open>now\<close> the value \<^verbatim>\<open>Date.now()\<close>
  returns during this call (milliseconds, an integer). The result is the new state and
  the chunks handed to \<^verbatim>\<open>onAudioChunk\<close> by this call. (\<^verbatim>\<open>validatePCMData\<close> only logs.)
\<close>

definition onaudioprocess ::
  "jsnum list \<Rightarrow> int \<Rightarrow> audio_processor \<Rightarrow> audio_processor \<times> 16 word list list" where
  "onaudioprocess inputData now ap =
     (if \<not> ap_isRecording ap then (ap, [])
      else
        let pcmData = convertToPCM inputData
        in if now - lastChunkTime ap \<ge> 10
           then (ap\<lparr>lastChunkTime := now\<rparr>, if onAudioChunk_set ap then [pcmData] else [])
           else (ap, []))"

text \<open>
  A sequence of capture callbacks, each with its timestamp and its frame; the result lists,
  callback by callback, the chunks that callback forwarded.
\<close>

fun pacer_run :: "(int \<times> jsnum list) list \<Rightarrow> audio_processor \<Rightarrow> 16 word list list list" where
  "pacer_run [] ap = []"
| "pacer_run (cb # cbs) ap =
     snd (onaudioprocess (snd cb) (fst cb) ap) # pacer_run cbs (fst (onaudioprocess (snd cb) (fst cb) ap))"

text \<open>
  Read off a run, without looking at the state: the timestamp of the latest callback that
  forwarded a chunk, given the timestamps and the outputs of the callbacks so far.
\<close>

fun last_forwarded :: "int list \<Rightarrow> 16 word list list list \<Rightarrow> int option" where
  "last_forwarded (t # ts) (out # outs) =
     (case last_forwarded ts outs of
        Some t' \<Rightarrow> Some t'
      | None \<Rightarrow> if out \<noteq> [] then Some t else None)"
| "last_forwarded _ _ = None"

text \<open>
  The time a callback is compared with: the timestamp of the latest forwarded
  chunk among the callbacks before it, or, when there is none, the value
  \<^verbatim>\<open>lastChunkTime\<close> had when the run began (0 after \<^verbatim>\<open>startRecording\<close>).
\<close>

definition last_time :: "audio_processor \<Rightarrow> int list \<Rightarrow> 16 word list list list \<Rightarrow> int" where
  "last_time ap ts outs = (case last_forwarded ts outs of Some t \<Rightarrow> t | None \<Rightarrow> lastChunkTime ap)"

text \<open>Timestamps that are each at least 10 ms after the one before, starting after \<open>prev\<close>.\<close>

fun spaced :: "int \<Rightarrow> int list \<Rightarrow> bool" where
  "spaced prev [] = True"
| "spaced prev (t # ts) = (t - prev \<ge> 10 \<and> spaced t ts)"

section \<open>The WebSocket transport (scripts/websocket.js)\<close>

text \<open>
  The browser side: every \<^verbatim>\<open>WebSocket\<close> object the program has created, with its
  \<^verbatim>\<open>readyState\<close>, the binary messages passed to its \<^verbatim>\<open>send\<close>, and the code passed to its
  \<^verbatim>\<open>close\<close>, if it was called. A socket is referred to by its position in the list of
  sockets created. A binary message is given by the 16-bit elements of the buffer it was
  made from (the \<^verbatim>\<open>Uint8Array\<close> passed to \<^verbatim>\<open>send\<close> is a view of the same bytes).
\<close>

datatype ready_state = CONNECTING | OPEN | CLOSING | CLOSED

record socket =
  readyState :: ready_state
  sent :: "16 word list list"
  close_code :: "nat option"

definition new_WebSocket :: socket where
  "new_WebSocket = \<lparr>readyState = CONNECTING, sent = [], close_code = None\<rparr>"

text \<open>
  \<^verbatim>\<open>socket.close(code, reason)\<close>: nothing happens on a socket that is closing or closed;
  otherwise the socket starts closing. The close event comes later, from the browser.
\<close>

definition socket_close :: "nat \<Rightarrow> socket \<Rightarrow> socket" where
  "socket_close code sk =
     (if readyState sk = CLOSING \<or> readyState sk = CLOSED then sk
      else sk\<lparr>readyState := CLOSING, close_code := Some code\<rparr>)"

datatype timer_state = Pending | Fired

text \<open>
  The fields of \<^verbatim>\<open>WhisperWebSocket\<close>, together with the two parts of the environment its
  methods act on: the sockets created so far, and the calls to \<^verbatim>\<open>setTimeout\<close> made so far
  (the delay of each, and whether its callback has run). The program keeps no timer
  handle and never calls \<^verbatim>\<open>clearTimeout\<close>, so a timer only goes from pending to fired.
  \<open>connectionChanges\<close> lists the arguments of the calls to \<^verbatim>\<open>onConnectionChange\<close>.
  \<open>url_accepted\<close> says whether the \<^verbatim>\<open>WebSocket\<close> constructor accepts the URL that
  \<^verbatim>\<open>config.getWebSocketURL()\<close> returns (it throws on a malformed URL; the configuration
  module is not among the sources).
\<close>

record transport =
  websocket :: "nat option"
  isConnected :: bool
  reconnectAttempts :: nat
  maxReconnectAttempts :: nat
  reconnectDelay :: nat
  sockets :: "socket list"
  timeouts :: "(nat \<times> timer_state) list"
  connectionChanges :: "bool list"
  url_accepted :: bool

definition new_WhisperWebSocket :: "bool \<Rightarrow> transport" where
  "new_WhisperWebSocket url_ok =
     \<lparr>websocket = None, isConnected = False, reconnectAttempts = 0, maxReconnectAttempts = 5,
      reconnectDelay = 1000, sockets = [], timeouts = [], connectionChanges = [],
      url_accepted = url_ok\<rparr>"

text \<open>
  \<^verbatim>\<open>connect()\<close>: a new socket is created and stored in \<^verbatim>\<open>this.websocket\<close>; the handlers
  attached to it are \<open>onopen\<close>, \<open>onclose\<close> below. If the constructor throws, the error
  is rethrown and nothing has changed.
\<close>

definition connect :: "transport \<Rightarrow> js_error + transport" where
  "connect t =
     (if \<not> url_accepted t then Inl (Error ''SyntaxError'')
      else Inr (t\<lparr>websocket := Some (length (sockets t)),
                  sockets := sockets t @ [new_WebSocket]\<rparr>))"

text \<open>The handler \<^verbatim>\<open>websocket.onopen\<close>.\<close>

definition onopen :: "transport \<Rightarrow> transport" where
  "onopen t =
     t\<lparr>isConnected := True, reconnectAttempts := 0, reconnectDelay := 1000,
       connectionChanges := connectionChanges t @ [True]\<rparr>"

text \<open>
  \<^verbatim>\<open>attemptReconnect()\<close>: the count goes up, \<^verbatim>\<open>setTimeout\<close> is called with the current
  delay, and then the delay is doubled up to the cap.
\<close>

definition attemptReconnect :: "transport \<Rightarrow> transport" where
  "attemptReconnect t =
     (let t1 = t\<lparr>reconnectAttempts := reconnectAttempts t + 1\<rparr>;
          t2 = t1\<lparr>timeouts := timeouts t1 @ [(reconnectDelay t1, Pending)]\<rparr>
      in t2\<lparr>reconnectDelay := min (reconnectDelay t2 * 2) 10000\<rparr>)"

text \<open>The handler \<^verbatim>\<open>websocket.onclose\<close>, for a close event with the given code.\<close>

definition onclose :: "nat \<Rightarrow> transport \<Rightarrow> transport" where
  "onclose code t =
     (let t1 = t\<lparr>isConnected := False, connectionChanges := connectionChanges t @ [False]\<rparr>
      in if code \<noteq> 1000 \<and> reconnectAttempts t1 < maxReconnectAttempts t1
         then attemptReconnect t1 else t1)"

text \<open>\<^verbatim>\<open>disconnect()\<close>.\<close>

definition disconnect :: "transport \<Rightarrow> transport" where
  "disconnect t =
     (let t1 = (case websocket t of
                  Some i \<Rightarrow> t\<lparr>sockets := (sockets t)[i := socket_close 1000 (sockets t ! i)],
                               websocket := None\<rparr>
                | None \<Rightarrow> t)
      in t1\<lparr>isConnected := False, reconnectAttempts := 0,
             connectionChanges := connectionChanges t1 @ [False]\<rparr>)"

text \<open>
  \<^verbatim>\<open>sendAudioChunk(audioChunk)\<close>: either an error is thrown and nothing has changed, or
  the bytes of the chunk have been passed to \<^verbatim>\<open>send\<close> of the current socket.
\<close>

definition sendAudioChunk :: "16 word list \<Rightarrow> transport \<Rightarrow> js_error + transport" where
  "sendAudioChunk audioChunk t =
     (case (isConnected t, websocket t) of
        (True, Some i) \<Rightarrow>
          if readyState (sockets t ! i) = OPEN
          then Inr (t\<lparr>sockets :=
                 (sockets t)[i := (sockets t ! i)\<lparr>sent := sent (sockets t ! i) @ [audioChunk]\<rparr>]\<rparr>)
          else Inl (Error ''WebSocket not in OPEN state'')
      | _ \<Rightarrow> Inl (Error ''WebSocket not connected''))"

text \<open>
  \<^verbatim>\<open>updateConfig(newConfig)\<close>; \<open>url_ok\<close> says whether the new configuration gives a URL
  the constructor accepts. When the final \<^verbatim>\<open>connect()\<close> throws, the error leaves the method
  with the assignments before it already made.
\<close>

definition updateConfig :: "bool \<Rightarrow> transport \<Rightarrow> js_error option \<times> transport" where
  "updateConfig url_ok t =
     (let t1 = t\<lparr>url_accepted := url_ok\<rparr>;
          t2 = (if isConnected t1 then disconnect t1 else t1);
          t3 = t2\<lparr>reconnectAttempts := 0, reconnectDelay := 1000\<rparr>
      in case connect t3 of Inl e \<Rightarrow> (Some e, t3) | Inr t4 \<Rightarrow> (None, t4))"

text \<open>
  What can happen to a transport: a call of one of its methods, a pending timer firing
  (its callback is \<^verbatim>\<open>() => this.connect()\<close>), or the browser delivering the open or the
  close event of one of the sockets. An event that cannot happen (a timer that is not
  pending, an open event on a socket that is not connecting, a close event on a socket
  already closed) changes nothing. A \<^verbatim>\<open>connect()\<close> that throws leaves the state as it was.
  (The error event and an inbound message only call \<^verbatim>\<open>onError\<close> and \<^verbatim>\<open>onMessage\<close>; they
  do not change the transport.)
\<close>

datatype event =
    Connect
  | Disconnect
  | UpdateConfig bool
  | TimerFires nat
  | SocketOpens nat
  | SocketCloses nat nat

definition connect_or_same :: "transport \<Rightarrow> transport" where
  "connect_or_same t = (case connect t of Inl e \<Rightarrow> t | Inr t' \<Rightarrow> t')"

fun step :: "event \<Rightarrow> transport \<Rightarrow> transport" where
  "step Connect t = connect_or_same t"
| "step Disconnect t = disconnect t"
| "step (UpdateConfig url_ok) t = snd (updateConfig url_ok t)"
| "step (TimerFires k) t =
     (if k < length (timeouts t) \<and> snd (timeouts t ! k) = Pending
      then connect_or_same (t\<lparr>timeouts := (timeouts t)[k := (fst (timeouts t ! k), Fired)]\<rparr>)
      else t)"
| "step (SocketOpens i) t =
     (if i < length (sockets t) \<and> readyState (sockets t ! i) = CONNECTING
      then onopen (t\<lparr>sockets := (sockets t)[i := (sockets t ! i)\<lparr>readyState := OPEN\<rparr>]\<rparr>)
      else t)"
| "step (SocketCloses i code) t =
     (if i < length (sockets t) \<and> readyState (sockets t ! i) \<noteq> CLOSED
      then onclose code (t\<lparr>sockets := (sockets t)[i := (sockets t ! i)\<lparr>readyState := CLOSED\<rparr>]\<rparr>)
      else t)"

definition run :: "event list \<Rightarrow> transport \<Rightarrow> transport" where
  "run evs t = fold step evs t"

text \<open>The delays of the timers set so far, in the order set, and the timers still pending.\<close>

definition scheduled_delays :: "transport \<Rightarrow> nat list" where
  "scheduled_delays t = map fst (timeouts t)"

definition pending_timers :: "transport \<Rightarrow> nat list" where
  "pending_timers t = filter (\<lambda>k. snd (timeouts t ! k) = Pending) [0..<length (timeouts t)]"

section \<open>The transcript display (scripts/ui.js) and the application (scripts/app.js)\<close>

text \<open>
  A JavaScript string is a sequence of 16-bit code units. \<^verbatim>\<open>String.prototype.trim\<close>
  removes, at both ends, the code units that are white space or line terminators.
\<close>

type_synonym jsstring = "16 word list"

definition js_string :: "string \<Rightarrow> jsstring" where
  "js_string s = map of_char s"

definition is_white :: "16 word \<Rightarrow> bool" where
  "is_white c =
     (c \<in> set [0x09, 0x0A, 0x0B, 0x0C, 0x0D, 0x20, 0xA0, 0x1680,
               0x2000, 0x2001, 0x2002, 0x2003, 0x2004, 0x2005, 0x2006, 0x2007, 0x2008,
               0x2009, 0x200A, 0x2028, 0x2029, 0x202F, 0x205F, 0x3000, 0xFEFF])"

definition trim :: "jsstring \<Rightarrow> jsstring" where
  "trim s = rev (dropWhile is_white (rev (dropWhile is_white s)))"

text \<open>
  An element child of \<^verbatim>\<open>#transcriptionText\<close>. A transcript line is a \<^verbatim>\<open>div\<close> whose class
  is \<^verbatim>\<open>transcription-line partial\<close> or \<^verbatim>\<open>transcription-line final\<close>; the page starts with
  one placeholder paragraph there.
\<close>

record element =
  className :: string
  textContent :: jsstring

definition placeholder :: element where
  "placeholder =
     \<lparr>className = ''placeholder-text'',
      textContent = js_string ''Start recording to see live transcription...''\<rparr>"

datatype notice = ErrorNotice string | SuccessNotice string

text \<open>
  The state of \<^verbatim>\<open>UI\<close> that the transcript and the recording path touch: the element
  children of \<^verbatim>\<open>#transcriptionText\<close>, the field \<^verbatim>\<open>partialBubble\<close> (null, or a reference to
  one of these children, given by its position), the notifications shown by
  \<^verbatim>\<open>showError\<close> and \<^verbatim>\<open>showSuccess\<close>, and the argument of the last
  \<^verbatim>\<open>updateRecordingState\<close>.
\<close>

record ui =
  children :: "element list"
  partialBubble :: "nat option"
  notifications :: "notice list"
  recordingShown :: bool

definition new_UI :: ui where
  "new_UI =
     \<lparr>children = [placeholder], partialBubble = None, notifications = [],
      recordingShown = False\<rparr>"

definition showError :: "string \<Rightarrow> ui \<Rightarrow> ui" where
  "showError message u = u\<lparr>notifications := notifications u @ [ErrorNotice message]\<rparr>"

definition showSuccess :: "string \<Rightarrow> ui \<Rightarrow> ui" where
  "showSuccess message u = u\<lparr>notifications := notifications u @ [SuccessNotice message]\<rparr>"

definition updateRecordingState :: "bool \<Rightarrow> ui \<Rightarrow> ui" where
  "updateRecordingState isRecording u = u\<lparr>recordingShown := isRecording\<rparr>"

text \<open>\<^verbatim>\<open>showPartialTranscription(text)\<close>.\<close>

definition showPartialTranscription :: "jsstring \<Rightarrow> ui \<Rightarrow> ui" where
  "showPartialTranscription text u =
     (let u1 = (if partialBubble u = None
                then u\<lparr>children := children u @
                         [\<lparr>className = ''transcription-line partial'', textContent = []\<rparr>],
                       partialBubble := Some (length (children u))\<rparr>
                else u)
      in case partialBubble u1 of
           Some b \<Rightarrow> u1\<lparr>children := (children u1)[b := (children u1 ! b)\<lparr>textContent := text\<rparr>]\<rparr>
         | None \<Rightarrow> u1)"

text \<open>\<^verbatim>\<open>finalizePartialTranscription()\<close>.\<close>

definition finalizePartialTranscription :: "ui \<Rightarrow> ui" where
  "finalizePartialTranscription u =
     (case partialBubble u of
        Some b \<Rightarrow>
          u\<lparr>children := (children u)[b := (children u ! b)\<lparr>className := ''transcription-line final''\<rparr>],
            partialBubble := None\<rparr>
      | None \<Rightarrow> u)"

text \<open>\<^verbatim>\<open>clearTranscription()\<close>.\<close>

definition clearTranscription :: "ui \<Rightarrow> ui" where
  "clearTranscription u = u\<lparr>children := [placeholder], partialBubble := None\<rparr>"

text \<open>
  A parsed inbound message, as far as \<^verbatim>\<open>handleTranscriptionMessage\<close> looks at it:
  \<^verbatim>\<open>data.data.text\<close> is a string, or \<^verbatim>\<open>data.data && data.data.text\<close> is falsy because
  something is missing (or null, 0, false), or it is a truthy value that is not a string;
  and \<^verbatim>\<open>data.is_partial\<close> is truthy or falsy.
\<close>

datatype text_field = Text jsstring | Missing | NonString

record message =
  msg_text :: text_field
  is_partial :: bool

text \<open>
  \<^verbatim>\<open>handleTranscriptionMessage(data)\<close>; it acts on \<^verbatim>\<open>this.ui\<close> only. An empty string is
  falsy. On a truthy value that is not a string, \<^verbatim>\<open>.trim()\<close> throws a TypeError, which the
  handler catches and logs.
\<close>

definition handleTranscriptionMessage :: "message \<Rightarrow> ui \<Rightarrow> ui" where
  "handleTranscriptionMessage data u =
     (case msg_text data of
        Text raw \<Rightarrow>
          if raw \<noteq> [] then
            let text = trim raw
            in if text \<noteq> [] then
                 if is_partial data then showPartialTranscription text u
                 else finalizePartialTranscription (showPartialTranscription text u)
               else u
          else u
      | Missing \<Rightarrow> u
      | NonString \<Rightarrow> u)"

text \<open>
  What can happen to the transcript display: an inbound message is handled, or the user
  starts a recording, which clears the display.
\<close>

datatype ui_event = Transcript message | Clear

fun ui_step :: "ui_event \<Rightarrow> ui \<Rightarrow> ui" where
  "ui_step (Transcript data) u = handleTranscriptionMessage data u"
| "ui_step Clear u = clearTranscription u"

definition ui_run :: "ui_event list \<Rightarrow> ui \<Rightarrow> ui" where
  "ui_run evs u = fold ui_step evs u"

text \<open>The transcript lines shown, by state.\<close>

definition is_partial_line :: "element \<Rightarrow> bool" where
  "is_partial_line e = (className e = ''transcription-line partial'')"

definition is_final_line :: "element \<Rightarrow> bool" where
  "is_final_line e = (className e = ''transcription-line final'')"

definition partial_lines :: "ui \<Rightarrow> element list" where
  "partial_lines u = filter is_partial_line (children u)"

definition final_lines :: "ui \<Rightarrow> element list" where
  "final_lines u = filter is_final_line (children u)"

text \<open>
  The invariant of the display: \<^verbatim>\<open>partialBubble\<close>, when set, refers to one of the children,
  and the children of class \<^verbatim>\<open>transcription-line partial\<close> are exactly that one.
\<close>

definition ui_inv :: "ui \<Rightarrow> bool" where
  "ui_inv u =
     ((case partialBubble u of Some b \<Rightarrow> b < length (children u) | None \<Rightarrow> True)
      \<and> (\<forall>i<length (children u). is_partial_line (children u ! i) = (partialBubble u = Some i)))"

text \<open>
  The position of the line that the next event writes: the open line if there is one,
  and otherwise the position where a new line is appended.
\<close>

definition open_line_index :: "ui \<Rightarrow> nat" where
  "open_line_index u = (case partialBubble u of Some b \<Rightarrow> b | None \<Rightarrow> length (children u))"

text \<open>The events of the specification, as messages.\<close>

definition partial_event :: "jsstring \<Rightarrow> ui_event" where
  "partial_event s = Transcript \<lparr>msg_text = Text s, is_partial = True\<rparr>"

definition final_event :: "jsstring \<Rightarrow> ui_event" where
  "final_event s = Transcript \<lparr>msg_text = Text s, is_partial = False\<rparr>"

text \<open>The fields of \<^verbatim>\<open>WhisperFlowApp\<close>.\<close>

record app =
  app_ui :: ui
  app_audio :: audio_processor
  app_websocket :: transport
  app_isRecording :: bool
  chunkCount :: nat

text \<open>\<^verbatim>\<open>WhisperFlowApp.stopRecording()\<close>.\<close>

definition stopRecording :: "app \<Rightarrow> app" where
  "stopRecording a =
     (if \<not> app_isRecording a then a
      else a\<lparr>app_isRecording := False,
             app_audio := ap_stopRecording (app_audio a),
             app_ui := showSuccess ''Recording stopped'' (updateRecordingState False (app_ui a))\<rparr>)"

text \<open>
  \<^verbatim>\<open>WhisperFlowApp.startRecording()\<close>. When \<^verbatim>\<open>audioProcessor.startRecording()\<close> throws, the
  error leaves the method with the two assignments before the call already made.
\<close>

definition startRecording :: "app \<Rightarrow> js_error option \<times> app" where
  "startRecording a =
     (if app_isRecording a then (None, a)
      else
        let a1 = a\<lparr>app_isRecording := True, chunkCount := 0\<rparr>
        in case ap_startRecording (app_audio a1) of
             Inl e \<Rightarrow> (Some e, a1)
           | Inr ap \<Rightarrow>
               (None, a1\<lparr>app_audio := ap,
                         app_ui := showSuccess ''Recording started''
                           (clearTranscription (updateRecordingState True (app_ui a1)))\<rparr>))"

text \<open>
  \<^verbatim>\<open>handleAudioChunk(audioChunk)\<close>, the callback \<^verbatim>\<open>onAudioChunk\<close> of the audio processor.
\<close>

definition handleAudioChunk :: "16 word list \<Rightarrow> app \<Rightarrow> app" where
  "handleAudioChunk audioChunk a =
     (if app_isRecording a \<and> isConnected (app_websocket a) then
        let a1 = a\<lparr>chunkCount := chunkCount a + 1\<rparr>
        in case sendAudioChunk audioChunk (app_websocket a1) of
             Inr t \<Rightarrow> a1\<lparr>app_websocket := t\<rparr>
           | Inl e \<Rightarrow>
               stopRecording (a1\<lparr>app_ui := showError ''Failed to send audio data'' (app_ui a1)\<rparr>)
      else a)"

section \<open>Properties of the PCM conversion\<close>

lemma convert_loop_map:
  "i \<le> length xs \<Longrightarrow> length out = length xs \<Longrightarrow>
   convert_loop xs i out = take i out @ map pcm_sample (drop i xs)"
proof (induction xs i out rule: convert_loop.induct)
  case (1 xs i out)
  show ?case
  proof (cases "i < length xs")
    case True
    have step: "convert_loop xs i out = convert_loop xs (Suc i) (out[i := pcm_sample (xs ! i)])"
      using True by (subst convert_loop.simps) simp
    have ih: "convert_loop xs (Suc i) (out[i := pcm_sample (xs ! i)]) =
        take (Suc i) (out[i := pcm_sample (xs ! i)]) @ map pcm_sample (drop (Suc i) xs)"
      using "1.IH" [OF True] True "1.prems" by simp
    have tk: "take (Suc i) (out[i := pcm_sample (xs ! i)]) = take i out @ [pcm_sample (xs ! i)]"
      using True "1.prems" by (simp add: take_Suc_conv_app_nth)
    have dr: "drop i xs = xs ! i # drop (Suc i) xs"
      using True by (simp add: Cons_nth_drop_Suc)
    show ?thesis
      by (simp only: step ih tk dr list.map append_assoc append_Cons append_Nil)
  next
    case False
    with "1.prems" have "i = length xs" by simp
    with "1.prems" show ?thesis by (subst convert_loop.simps) simp
  qed
qed

lemma convertToPCM_map: "convertToPCM xs = map pcm_sample xs"
  by (simp add: convertToPCM_def convert_loop_map)

lemma file_convertToPCM_map: "file_convertToPCM xs = map pcm_sample xs"
  by (simp add: file_convertToPCM_def convert_loop_map)

lemma spec_clamp_range: "- 1 \<le> spec_clamp x \<and> spec_clamp x \<le> 1"
  by (simp add: spec_clamp_def)

lemma spec_convert_range: "- 32768 \<le> spec_convert x \<and> spec_convert x \<le> 32767"
proof -
  let ?c = "spec_clamp x"
  have c: "- 1 \<le> ?c" "?c \<le> 1" using spec_clamp_range by auto
  have lo: "- 32768 \<le> spec_scale ?c" using c by (auto simp: spec_scale_def)
  have hi: "spec_scale ?c \<le> 32767" using c by (auto simp: spec_scale_def)
  have "round (- 32768 :: real) \<le> round (spec_scale ?c)"
    using lo by (rule round_mono)
  moreover have "round (spec_scale ?c) \<le> round (32767 :: real)"
    using hi by (rule round_mono)
  ultimately show ?thesis by (simp add: spec_convert_def)
qed

lemma trunc_of_int: "trunc (of_int k) = k"
  by (simp add: trunc_def)

lemma trunc_numeral: "trunc (numeral n) = numeral n" "trunc (- numeral n) = - numeral n"
  by (simp_all add: trunc_def)

lemma pcm_sample_Fin: "pcm_sample (Fin x) = word_of_int (spec_convert x)"
  by (auto simp: pcm_sample_def Math_min_def Math_max_def js_ge_def Let_def trunc_of_int
      trunc_numeral spec_convert_def spec_scale_def spec_clamp_def min_def max_def)

lemma sint_pcm_sample_Fin: "sint (pcm_sample (Fin x)) = spec_convert x"
proof -
  have "- (2 ^ (LENGTH(16) - 1)) \<le> spec_convert x" "spec_convert x < 2 ^ (LENGTH(16) - 1)"
    using spec_convert_range [of x] by simp_all
  then have "sint (word_of_int (spec_convert x) :: 16 word) = spec_convert x"
    by (simp only: sint_sbintrunc' signed_take_bit_int_eq_self)
  then show ?thesis by (simp add: pcm_sample_Fin)
qed

lemma pcm_sample_special:
  "pcm_sample NaN = 0" "sint (pcm_sample PosInf) = 32767" "sint (pcm_sample NegInf) = - 32768"
  by (simp_all add: pcm_sample_def Math_min_def Math_max_def js_ge_def trunc_numeral)

lemma spec_convert_values:
  "spec_convert 0 = 0" "spec_convert 1 = 32767" "spec_convert (- 1) = - 32768"
  "spec_convert 2 = 32767"
  by (simp_all add: spec_convert_def spec_scale_def spec_clamp_def)

lemma spec_clamp_idem: "spec_clamp (spec_clamp x) = spec_clamp x"
  by (simp add: spec_clamp_def)

text \<open>
  Claim C1. For every input array, \<^verbatim>\<open>convertToPCM\<close> (both copies of it) returns an array
  of the same length. Every output sample lies in \<open>[-32768, 32767]\<close>. A finite input
  sample \<open>x\<close> is clamped to \<open>[-1, 1]\<close>, scaled by 32767 if the clamped value is
  non-negative and by 32768 if it is negative, and rounded to the nearest integer (the
  result is within 1/2 of the scaled value); converting \<open>x\<close> gives what converting the
  clamped \<open>x\<close> gives. The infinities behave as the ends of the range, and NaN is stored
  as 0. In particular 0 gives 0, 1 gives 32767, -1 gives -32768, and 2 gives what 1 gives.
\<close>

theorem convertToPCM_clamp_scale_round:
  "length (convertToPCM xs) = length xs
   \<and> file_convertToPCM xs = convertToPCM xs
   \<and> (\<forall>i<length xs. - 32768 \<le> sint (convertToPCM xs ! i) \<and> sint (convertToPCM xs ! i) \<le> 32767)
   \<and> (\<forall>i<length xs. \<forall>x. xs ! i = Fin x \<longrightarrow>
         sint (convertToPCM xs ! i) = round (spec_scale (spec_clamp x))
         \<and> \<bar>of_int (sint (convertToPCM xs ! i)) - spec_scale (spec_clamp x)\<bar> \<le> 1 / 2
         \<and> - 1 \<le> spec_clamp x \<and> spec_clamp x \<le> 1
         \<and> convertToPCM [Fin x] = convertToPCM [Fin (spec_clamp x)])
   \<and> (\<forall>i<length xs. xs ! i = PosInf \<longrightarrow> sint (convertToPCM xs ! i) = 32767)
   \<and> (\<forall>i<length xs. xs ! i = NegInf \<longrightarrow> sint (convertToPCM xs ! i) = - 32768)
   \<and> (\<forall>i<length xs. xs ! i = NaN \<longrightarrow> sint (convertToPCM xs ! i) = 0)
   \<and> map sint (convertToPCM [Fin 0, Fin 1, Fin (- 1), Fin 2]) = [0, 32767, - 32768, 32767]"
proof (intro conjI allI impI)
  show "length (convertToPCM xs) = length xs"
    by (simp add: convertToPCM_map)
  show "file_convertToPCM xs = convertToPCM xs"
    by (simp add: convertToPCM_map file_convertToPCM_map)
  show "map sint (convertToPCM [Fin 0, Fin 1, Fin (- 1), Fin 2]) = [0, 32767, - 32768, 32767]"
    by (simp add: convertToPCM_map sint_pcm_sample_Fin spec_convert_values)
next
  fix i assume i: "i < length xs"
  have "- (2 ^ (LENGTH(16) - 1)) \<le> sint (convertToPCM xs ! i)"
    by (rule sint_ge)
  then show "- 32768 \<le> sint (convertToPCM xs ! i)" by simp
  have "sint (convertToPCM xs ! i) < 2 ^ (LENGTH(16) - 1)"
    by (rule sint_lt)
  then show "sint (convertToPCM xs ! i) \<le> 32767" by simp
next
  fix i x assume i: "i < length xs" and x: "xs ! i = Fin x"
  have eq: "sint (convertToPCM xs ! i) = spec_convert x"
    using i x by (simp add: convertToPCM_map sint_pcm_sample_Fin)
  show "sint (convertToPCM xs ! i) = round (spec_scale (spec_clamp x))"
    using eq by (simp add: spec_convert_def)
  show "\<bar>of_int (sint (convertToPCM xs ! i)) - spec_scale (spec_clamp x)\<bar> \<le> 1 / 2"
    unfolding eq spec_convert_def by (rule of_int_round_abs_le)
  show "- 1 \<le> spec_clamp x" "spec_clamp x \<le> 1"
    using spec_clamp_range by auto
  show "convertToPCM [Fin x] = convertToPCM [Fin (spec_clamp x)]"
    by (simp add: convertToPCM_map pcm_sample_Fin spec_convert_def spec_clamp_idem)
next
  fix i assume "i < length xs" "xs ! i = PosInf"
  then show "sint (convertToPCM xs ! i) = 32767"
    by (simp add: convertToPCM_map pcm_sample_special)
next
  fix i assume "i < length xs" "xs ! i = NegInf"
  then show "sint (convertToPCM xs ! i) = - 32768"
    by (simp add: convertToPCM_map pcm_sample_special)
next
  fix i assume "i < length xs" "xs ! i = NaN"
  then show "sint (convertToPCM xs ! i) = 0"
    by (simp add: convertToPCM_map pcm_sample_special)
qed

text \<open>The theorem at the input \<open>[0.5, -3, NaN, +\<infinity>, -\<infinity>]\<close>.\<close>

theorem convertToPCM_witness:
  "map sint (convertToPCM [Fin (1 / 2), Fin (- 3), NaN, PosInf, NegInf])
     = [16384, - 32768, 0, 32767, - 32768]"
proof -
  let ?xs = "[Fin (1 / 2), Fin (- 3), NaN, PosInf, NegInf]"
  note t = convertToPCM_clamp_scale_round [of ?xs]
  have l: "length (convertToPCM ?xs) = 5"
    using t by simp
  have a: "sint (convertToPCM ?xs ! 0) = round (spec_scale (spec_clamp (1 / 2)))"
    using t by simp
  have b: "sint (convertToPCM ?xs ! 1) = round (spec_scale (spec_clamp (- 3)))"
    using t by simp
  have c: "sint (convertToPCM ?xs ! 2) = 0"
    using t by simp
  have d: "sint (convertToPCM ?xs ! 3) = 32767"
    using t by simp
  have e: "sint (convertToPCM ?xs ! 4) = - 32768"
    using t by simp
  have r1: "round (spec_scale (spec_clamp (1 / 2))) = 16384"
    by (simp add: spec_scale_def spec_clamp_def round_def)
  have r2: "round (spec_scale (spec_clamp (- 3))) = - 32768"
    by (simp add: spec_scale_def spec_clamp_def)
  have n: "ys = [ys ! 0, ys ! 1, ys ! 2, ys ! 3, ys ! 4]" if "length ys = 5" for ys :: "16 word list"
    using that by (auto simp: list_eq_iff_nth_eq less_Suc_eq numeral_eq_Suc)
  have "map sint (convertToPCM ?xs) = map sint [convertToPCM ?xs ! 0, convertToPCM ?xs ! 1,
      convertToPCM ?xs ! 2, convertToPCM ?xs ! 3, convertToPCM ?xs ! 4]"
    using n [OF l] by simp
  also have "\<dots> = [16384, - 32768, 0, 32767, - 32768]"
    using a b c d e r1 r2 by simp
  finally show ?thesis .
qed

section \<open>Properties of the transcript display\<close>

lemma ui_inv_new_UI: "ui_inv new_UI"
  by (simp add: ui_inv_def new_UI_def placeholder_def is_partial_line_def)

lemma ui_inv_clearTranscription: "ui_inv (clearTranscription u)"
  by (simp add: ui_inv_def clearTranscription_def placeholder_def is_partial_line_def)

lemma showPartial_None:
  "partialBubble u = None \<Longrightarrow>
   showPartialTranscription text u =
     u\<lparr>children := children u @ [\<lparr>className = ''transcription-line partial'', textContent = text\<rparr>],
       partialBubble := Some (length (children u))\<rparr>"
  by (simp add: showPartialTranscription_def)

lemma showPartial_Some:
  "partialBubble u = Some b \<Longrightarrow>
   showPartialTranscription text u =
     u\<lparr>children := (children u)[b := (children u ! b)\<lparr>textContent := text\<rparr>]\<rparr>"
  by (simp add: showPartialTranscription_def)

lemma ui_inv_showPartial: "ui_inv u \<Longrightarrow> ui_inv (showPartialTranscription text u)"
proof (cases "partialBubble u")
  case None
  assume "ui_inv u"
  with None show ?thesis
    by (auto simp: showPartial_None ui_inv_def nth_append is_partial_line_def)
next
  case (Some b)
  assume "ui_inv u"
  with Some show ?thesis
    by (auto simp: showPartial_Some ui_inv_def nth_list_update is_partial_line_def)
qed

lemma ui_inv_finalize: "ui_inv u \<Longrightarrow> ui_inv (finalizePartialTranscription u)"
  by (cases "partialBubble u")
     (auto simp: finalizePartialTranscription_def ui_inv_def nth_list_update is_partial_line_def)

lemma ui_inv_handle: "ui_inv u \<Longrightarrow> ui_inv (handleTranscriptionMessage data u)"
  by (simp add: handleTranscriptionMessage_def Let_def ui_inv_showPartial ui_inv_finalize
      split: text_field.split)

lemma ui_inv_step: "ui_inv u \<Longrightarrow> ui_inv (ui_step e u)"
  by (cases e) (simp_all add: ui_inv_handle ui_inv_clearTranscription)

lemma ui_inv_fold: "ui_inv u \<Longrightarrow> ui_inv (fold ui_step evs u)"
  by (induction evs arbitrary: u) (simp_all add: ui_inv_step)

lemma ui_inv_run: "ui_inv (ui_run evs new_UI)"
  by (simp add: ui_run_def ui_inv_fold ui_inv_new_UI)

lemma filter_at_most_one:
  "(\<And>i j. i < length xs \<Longrightarrow> j < length xs \<Longrightarrow> P (xs ! i) \<Longrightarrow> P (xs ! j) \<Longrightarrow> i = j)
   \<Longrightarrow> length (filter P xs) \<le> 1"
proof (induction xs)
  case Nil
  show ?case by simp
next
  case (Cons x xs)
  have rest: "length (filter P xs) \<le> 1"
  proof (rule Cons.IH)
    fix i j assume "i < length xs" "j < length xs" "P (xs ! i)" "P (xs ! j)"
    then have "Suc i = Suc j" using Cons.prems [of "Suc i" "Suc j"] by simp
    then show "i = j" by simp
  qed
  show ?case
  proof (cases "P x")
    case False
    with rest show ?thesis by simp
  next
    case True
    have "\<not> P y" if "y \<in> set xs" for y
    proof
      assume py: "P y"
      from that obtain k where k: "k < length xs" "xs ! k = y"
        by (auto simp: in_set_conv_nth)
      have "0 = Suc k" using Cons.prems [of 0 "Suc k"] True py k by simp
      then show False by simp
    qed
    then have "filter P xs = []" by (simp add: filter_empty_conv)
    with True show ?thesis by simp
  qed
qed

lemma ui_inv_partial_lines: "ui_inv u \<Longrightarrow> length (partial_lines u) \<le> 1"
  unfolding partial_lines_def
  by (rule filter_at_most_one) (simp add: ui_inv_def)

lemma final_not_partial: "is_final_line e \<Longrightarrow> \<not> is_partial_line e"
  by (simp add: is_final_line_def is_partial_line_def)

lemma showPartial_keeps_final:
  assumes "ui_inv u" "i < length (children u)" "is_final_line (children u ! i)"
  shows "i < length (children (showPartialTranscription text u))
         \<and> children (showPartialTranscription text u) ! i = children u ! i"
proof (cases "partialBubble u")
  case None
  with assms show ?thesis by (simp add: showPartial_None nth_append)
next
  case (Some b)
  have "b \<noteq> i" using assms Some final_not_partial [of "children u ! i"]
    by (auto simp: ui_inv_def)
  with assms Some show ?thesis by (simp add: showPartial_Some)
qed

lemma finalize_keeps_final:
  assumes "ui_inv u" "i < length (children u)" "is_final_line (children u ! i)"
  shows "i < length (children (finalizePartialTranscription u))
         \<and> children (finalizePartialTranscription u) ! i = children u ! i"
proof (cases "partialBubble u")
  case None
  with assms show ?thesis by (simp add: finalizePartialTranscription_def)
next
  case (Some b)
  have "b \<noteq> i" using assms Some final_not_partial [of "children u ! i"]
    by (auto simp: ui_inv_def)
  with assms Some show ?thesis by (simp add: finalizePartialTranscription_def)
qed

lemma handle_keeps_final:
  assumes "ui_inv u" "i < length (children u)" "is_final_line (children u ! i)"
  shows "i < length (children (handleTranscriptionMessage data u))
         \<and> children (handleTranscriptionMessage data u) ! i = children u ! i"
proof -
  have sp: "\<And>s. i < length (children (showPartialTranscription s u))
         \<and> children (showPartialTranscription s u) ! i = children u ! i"
    using assms by (rule showPartial_keeps_final)
  have fin: "\<And>s. i < length (children (finalizePartialTranscription (showPartialTranscription s u)))
         \<and> children (finalizePartialTranscription (showPartialTranscription s u)) ! i = children u ! i"
  proof -
    fix s
    let ?v = "showPartialTranscription s u"
    have "ui_inv ?v" using assms(1) by (rule ui_inv_showPartial)
    moreover have "i < length (children ?v)" using sp by simp
    moreover have "is_final_line (children ?v ! i)" using sp assms(3) by simp
    ultimately have "i < length (children (finalizePartialTranscription ?v))
         \<and> children (finalizePartialTranscription ?v) ! i = children ?v ! i"
      by (rule finalize_keeps_final)
    with sp show "i < length (children (finalizePartialTranscription ?v))
         \<and> children (finalizePartialTranscription ?v) ! i = children u ! i" by simp
  qed
  show ?thesis
    using assms sp fin by (simp add: handleTranscriptionMessage_def Let_def split: text_field.split)
qed

lemma messages_keep_final:
  "ui_inv u \<Longrightarrow> i < length (children u) \<Longrightarrow> is_final_line (children u ! i) \<Longrightarrow>
   i < length (children (fold ui_step (map Transcript msgs) u))
   \<and> children (fold ui_step (map Transcript msgs) u) ! i = children u ! i"
proof (induction msgs arbitrary: u)
  case Nil
  then show ?case by simp
next
  case (Cons m msgs)
  let ?v = "handleTranscriptionMessage m u"
  have k: "i < length (children ?v) \<and> children ?v ! i = children u ! i"
    using Cons.prems by (rule handle_keeps_final)
  have "ui_inv ?v" using Cons.prems(1) by (rule ui_inv_handle)
  moreover have "i < length (children ?v)" using k by simp
  moreover have "is_final_line (children ?v ! i)" using k Cons.prems(3) by simp
  ultimately have "i < length (children (fold ui_step (map Transcript msgs) ?v))
   \<and> children (fold ui_step (map Transcript msgs) ?v) ! i = children ?v ! i"
    by (rule Cons.IH)
  with k show ?case by simp
qed

text \<open>
  Claim C9. In every state reached from the initial display by inbound messages and
  clears, at most one line is partial; and a line that is final there is still there,
  with the same text and class, after any further inbound messages.
\<close>

theorem one_partial_line_final_lines_fixed:
  "length (partial_lines (ui_run evs new_UI)) \<le> 1
   \<and> (\<forall>i<length (children (ui_run evs new_UI)).
        is_final_line (children (ui_run evs new_UI) ! i) \<longrightarrow>
          i < length (children (ui_run (evs @ map Transcript msgs) new_UI))
          \<and> children (ui_run (evs @ map Transcript msgs) new_UI) ! i
              = children (ui_run evs new_UI) ! i)"
proof (intro conjI allI impI)
  show "length (partial_lines (ui_run evs new_UI)) \<le> 1"
    using ui_inv_run by (rule ui_inv_partial_lines)
next
  fix i
  assume i: "i < length (children (ui_run evs new_UI))"
    and f: "is_final_line (children (ui_run evs new_UI) ! i)"
  have split: "ui_run (evs @ map Transcript msgs) new_UI
      = fold ui_step (map Transcript msgs) (ui_run evs new_UI)"
    by (simp add: ui_run_def)
  have "i < length (children (fold ui_step (map Transcript msgs) (ui_run evs new_UI)))
     \<and> children (fold ui_step (map Transcript msgs) (ui_run evs new_UI)) ! i
         = children (ui_run evs new_UI) ! i"
    using ui_inv_run i f by (rule messages_keep_final)
  then show "i < length (children (ui_run (evs @ map Transcript msgs) new_UI))"
    and "children (ui_run (evs @ map Transcript msgs) new_UI) ! i
              = children (ui_run evs new_UI) ! i"
    by (simp_all only: split)
qed

text \<open>
  The theorem after partial "a", final "abc", partial "x": the final line at position 1
  is unchanged by a further final "y".
\<close>

theorem one_partial_line_final_lines_fixed_witness:
  "length (partial_lines (ui_run [partial_event (js_string ''a''), final_event (js_string ''abc''),
        partial_event (js_string ''x'')] new_UI)) \<le> 1
   \<and> is_final_line (children (ui_run [partial_event (js_string ''a''), final_event (js_string ''abc''),
        partial_event (js_string ''x'')] new_UI) ! 1)
   \<and> children (ui_run ([partial_event (js_string ''a''), final_event (js_string ''abc''),
        partial_event (js_string ''x'')]
          @ map Transcript [\<lparr>msg_text = Text (js_string ''y''), is_partial = False\<rparr>]) new_UI) ! 1
      = \<lparr>className = ''transcription-line final'', textContent = js_string ''abc''\<rparr>"
proof -
  let ?E = "[partial_event (js_string ''a''), final_event (js_string ''abc''),
        partial_event (js_string ''x'')]"
  let ?M = "[\<lparr>msg_text = Text (js_string ''y''), is_partial = False\<rparr>]"
  have e: "children (ui_run ?E new_UI) =
      [placeholder,
       \<lparr>className = ''transcription-line final'', textContent = js_string ''abc''\<rparr>,
       \<lparr>className = ''transcription-line partial'', textContent = js_string ''x''\<rparr>]"
    by (simp add: ui_run_def partial_event_def final_event_def new_UI_def
        handleTranscriptionMessage_def showPartialTranscription_def
        finalizePartialTranscription_def js_string_def trim_def is_white_def Let_def)
  have h: "1 < length (children (ui_run ?E new_UI))"
    "is_final_line (children (ui_run ?E new_UI) ! 1)"
    by (simp_all add: e is_final_line_def)
  have "children (ui_run (?E @ map Transcript ?M) new_UI) ! 1 = children (ui_run ?E new_UI) ! 1"
    using one_partial_line_final_lines_fixed [of ?E ?M] h by blast
  moreover have "length (partial_lines (ui_run ?E new_UI)) \<le> 1"
    using one_partial_line_final_lines_fixed [of ?E ?M] by blast
  ultimately show ?thesis using h(2) by (simp add: e)
qed

text \<open>
  Claim C4. Applied to the initial display, partial "a", partial "ab", final "abc" leave
  exactly one final line, with text "abc", and no partial line (\<^verbatim>\<open>partialBubble\<close> is
  null); a following partial "x" appends a new partial line and leaves the final line as
  it was.
\<close>

theorem partial_partial_final_then_partial:
  "final_lines (ui_run [partial_event (js_string ''a''), partial_event (js_string ''ab''),
        final_event (js_string ''abc'')] new_UI)
     = [\<lparr>className = ''transcription-line final'', textContent = js_string ''abc''\<rparr>]
   \<and> partial_lines (ui_run [partial_event (js_string ''a''), partial_event (js_string ''ab''),
        final_event (js_string ''abc'')] new_UI) = []
   \<and> partialBubble (ui_run [partial_event (js_string ''a''), partial_event (js_string ''ab''),
        final_event (js_string ''abc'')] new_UI) = None
   \<and> children (ui_run [partial_event (js_string ''a''), partial_event (js_string ''ab''),
        final_event (js_string ''abc'')] new_UI)
     = [placeholder, \<lparr>className = ''transcription-line final'', textContent = js_string ''abc''\<rparr>]
   \<and> children (ui_run [partial_event (js_string ''a''), partial_event (js_string ''ab''),
        final_event (js_string ''abc''), partial_event (js_string ''x'')] new_UI)
     = [placeholder, \<lparr>className = ''transcription-line final'', textContent = js_string ''abc''\<rparr>,
        \<lparr>className = ''transcription-line partial'', textContent = js_string ''x''\<rparr>]
   \<and> partialBubble (ui_run [partial_event (js_string ''a''), partial_event (js_string ''ab''),
        final_event (js_string ''abc''), partial_event (js_string ''x'')] new_UI) = Some 2"
  by (simp add: ui_run_def partial_event_def final_event_def new_UI_def
      handleTranscriptionMessage_def showPartialTranscription_def
      finalizePartialTranscription_def final_lines_def partial_lines_def
      is_final_line_def is_partial_line_def placeholder_def
      js_string_def trim_def is_white_def Let_def)

lemma handle_partial_stores:
  assumes inv: "ui_inv u" and ne: "trim raw \<noteq> []"
  shows "partialBubble (handleTranscriptionMessage \<lparr>msg_text = Text raw, is_partial = True\<rparr> u)
           = Some (open_line_index u)"
    and "open_line_index u
           < length (children (handleTranscriptionMessage \<lparr>msg_text = Text raw, is_partial = True\<rparr> u))"
    and "children (handleTranscriptionMessage \<lparr>msg_text = Text raw, is_partial = True\<rparr> u)
           ! open_line_index u
         = \<lparr>className = ''transcription-line partial'', textContent = trim raw\<rparr>"
proof -
  have raw: "raw \<noteq> []" using ne by (auto simp: trim_def)
  have h: "handleTranscriptionMessage \<lparr>msg_text = Text raw, is_partial = True\<rparr> u
      = showPartialTranscription (trim raw) u"
    using raw ne by (simp add: handleTranscriptionMessage_def)
  show "partialBubble (handleTranscriptionMessage \<lparr>msg_text = Text raw, is_partial = True\<rparr> u)
           = Some (open_line_index u)"
    unfolding h by (cases "partialBubble u")
      (simp_all add: showPartial_None showPartial_Some open_line_index_def)
  show "open_line_index u
           < length (children (handleTranscriptionMessage \<lparr>msg_text = Text raw, is_partial = True\<rparr> u))"
    unfolding h using inv by (cases "partialBubble u")
      (simp_all add: showPartial_None showPartial_Some open_line_index_def ui_inv_def)
  show "children (handleTranscriptionMessage \<lparr>msg_text = Text raw, is_partial = True\<rparr> u)
           ! open_line_index u
         = \<lparr>className = ''transcription-line partial'', textContent = trim raw\<rparr>"
  proof (cases "partialBubble u")
    case None
    then show ?thesis unfolding h by (simp add: showPartial_None open_line_index_def)
  next
    case (Some b)
    have b: "b < length (children u)" "className (children u ! b) = ''transcription-line partial''"
      using inv Some by (auto simp: ui_inv_def is_partial_line_def)
    then show ?thesis unfolding h using Some
      by (simp add: showPartial_Some open_line_index_def)
  qed
qed

lemma handle_final_stores:
  assumes inv: "ui_inv u" and ne: "trim raw \<noteq> []"
  shows "partialBubble (handleTranscriptionMessage \<lparr>msg_text = Text raw, is_partial = False\<rparr> u) = None"
    and "open_line_index u
           < length (children (handleTranscriptionMessage \<lparr>msg_text = Text raw, is_partial = False\<rparr> u))"
    and "children (handleTranscriptionMessage \<lparr>msg_text = Text raw, is_partial = False\<rparr> u)
           ! open_line_index u
         = \<lparr>className = ''transcription-line final'', textContent = trim raw\<rparr>"
proof -
  let ?v = "handleTranscriptionMessage \<lparr>msg_text = Text raw, is_partial = True\<rparr> u"
  have raw: "raw \<noteq> []" using ne by (auto simp: trim_def)
  have h: "handleTranscriptionMessage \<lparr>msg_text = Text raw, is_partial = False\<rparr> u
      = finalizePartialTranscription ?v"
    using raw ne by (simp add: handleTranscriptionMessage_def)
  note p = handle_partial_stores [OF inv ne]
  show "partialBubble (handleTranscriptionMessage \<lparr>msg_text = Text raw, is_partial = False\<rparr> u) = None"
    unfolding h using p(1) by (simp add: finalizePartialTranscription_def)
  show "open_line_index u
           < length (children (handleTranscriptionMessage \<lparr>msg_text = Text raw, is_partial = False\<rparr> u))"
    unfolding h using p(1,2) by (simp add: finalizePartialTranscription_def)
  show "children (handleTranscriptionMessage \<lparr>msg_text = Text raw, is_partial = False\<rparr> u)
           ! open_line_index u
         = \<lparr>className = ''transcription-line final'', textContent = trim raw\<rparr>"
    unfolding h using p by (simp add: finalizePartialTranscription_def)
qed

lemma handle_depends_on_trim:
  assumes "trim raw' = trim raw"
  shows "handleTranscriptionMessage \<lparr>msg_text = Text raw', is_partial = p\<rparr> u
       = handleTranscriptionMessage \<lparr>msg_text = Text raw, is_partial = p\<rparr> u"
proof -
  have e: "raw = [] \<Longrightarrow> trim raw = []" for raw by (simp add: trim_def)
  show ?thesis using assms e [of raw] e [of raw']
    by (cases "raw = []"; cases "raw' = []") (auto simp: handleTranscriptionMessage_def Let_def)
qed

text \<open>
  Claim C10. In any reachable state of the display, an inbound message whose text is
  not empty after trimming stores the trimmed text: a partial message leaves the open
  line partial with the trimmed text, a final message leaves that line final with the
  trimmed text and no line open; and two messages whose texts have the same trimmed text
  lead to the same state.
\<close>

theorem stored_text_is_trimmed:
  assumes "trim raw \<noteq> []"
  shows "partialBubble (handleTranscriptionMessage \<lparr>msg_text = Text raw, is_partial = True\<rparr>
            (ui_run evs new_UI)) = Some (open_line_index (ui_run evs new_UI))
       \<and> children (handleTranscriptionMessage \<lparr>msg_text = Text raw, is_partial = True\<rparr>
            (ui_run evs new_UI)) ! open_line_index (ui_run evs new_UI)
         = \<lparr>className = ''transcription-line partial'', textContent = trim raw\<rparr>
       \<and> partialBubble (handleTranscriptionMessage \<lparr>msg_text = Text raw, is_partial = False\<rparr>
            (ui_run evs new_UI)) = None
       \<and> children (handleTranscriptionMessage \<lparr>msg_text = Text raw, is_partial = False\<rparr>
            (ui_run evs new_UI)) ! open_line_index (ui_run evs new_UI)
         = \<lparr>className = ''transcription-line final'', textContent = trim raw\<rparr>
       \<and> open_line_index (ui_run evs new_UI)
           < length (children (handleTranscriptionMessage \<lparr>msg_text = Text raw, is_partial = True\<rparr>
               (ui_run evs new_UI)))
       \<and> open_line_index (ui_run evs new_UI)
           < length (children (handleTranscriptionMessage \<lparr>msg_text = Text raw, is_partial = False\<rparr>
               (ui_run evs new_UI)))
       \<and> (\<forall>raw' p. trim raw' = trim raw \<longrightarrow>
            handleTranscriptionMessage \<lparr>msg_text = Text raw', is_partial = p\<rparr> (ui_run evs new_UI)
            = handleTranscriptionMessage \<lparr>msg_text = Text raw, is_partial = p\<rparr> (ui_run evs new_UI))"
  using handle_partial_stores [OF ui_inv_run assms, of evs]
    handle_final_stores [OF ui_inv_run assms, of evs]
    handle_depends_on_trim [of _ raw _ "ui_run evs new_UI"]
  by blast

text \<open>The theorem for the text "  hi " after partial "a": the line stored is "hi".\<close>

theorem stored_text_is_trimmed_witness:
  "trim (js_string ''  hi '') \<noteq> []
   \<and> trim (js_string ''  hi '') = js_string ''hi''
   \<and> open_line_index (ui_run [partial_event (js_string ''a'')] new_UI) = 1
   \<and> children (handleTranscriptionMessage \<lparr>msg_text = Text (js_string ''  hi ''), is_partial = True\<rparr>
        (ui_run [partial_event (js_string ''a'')] new_UI)) ! 1
     = \<lparr>className = ''transcription-line partial'', textContent = js_string ''hi''\<rparr>
   \<and> children (handleTranscriptionMessage \<lparr>msg_text = Text (js_string ''  hi ''), is_partial = False\<rparr>
        (ui_run [partial_event (js_string ''a'')] new_UI)) ! 1
     = \<lparr>className = ''transcription-line final'', textContent = js_string ''hi''\<rparr>
   \<and> handleTranscriptionMessage \<lparr>msg_text = Text (js_string ''hi''), is_partial = True\<rparr>
        (ui_run [partial_event (js_string ''a'')] new_UI)
     = handleTranscriptionMessage \<lparr>msg_text = Text (js_string ''  hi ''), is_partial = True\<rparr>
        (ui_run [partial_event (js_string ''a'')] new_UI)"
proof -
  have t: "trim (js_string ''  hi '') = js_string ''hi''"
    by (simp add: js_string_def trim_def is_white_def)
  have t': "trim (js_string ''hi'') = js_string ''hi''"
    by (simp add: js_string_def trim_def is_white_def)
  have ne: "trim (js_string ''  hi '') \<noteq> []"
    unfolding t by (simp add: js_string_def)
  have o: "open_line_index (ui_run [partial_event (js_string ''a'')] new_UI) = 1"
    by (simp add: open_line_index_def ui_run_def partial_event_def new_UI_def
        handleTranscriptionMessage_def showPartialTranscription_def
        js_string_def trim_def is_white_def Let_def)
  note s = stored_text_is_trimmed [OF ne, of "[partial_event (js_string ''a'')]"]
  have tt: "trim (js_string ''hi'') = trim (js_string ''  hi '')"
    by (simp only: t t')
  have same: "handleTranscriptionMessage \<lparr>msg_text = Text (js_string ''hi''), is_partial = True\<rparr>
        (ui_run [partial_event (js_string ''a'')] new_UI)
     = handleTranscriptionMessage \<lparr>msg_text = Text (js_string ''  hi ''), is_partial = True\<rparr>
        (ui_run [partial_event (js_string ''a'')] new_UI)"
    using s tt by blast
  have p: "children (handleTranscriptionMessage \<lparr>msg_text = Text (js_string ''  hi ''), is_partial = True\<rparr>
        (ui_run [partial_event (js_string ''a'')] new_UI)) ! 1
     = \<lparr>className = ''transcription-line partial'', textContent = js_string ''hi''\<rparr>"
    using s unfolding o t by blast
  have f: "children (handleTranscriptionMessage \<lparr>msg_text = Text (js_string ''  hi ''), is_partial = False\<rparr>
        (ui_run [partial_event (js_string ''a'')] new_UI)) ! 1
     = \<lparr>className = ''transcription-line final'', textContent = js_string ''hi''\<rparr>"
    using s unfolding o t by blast
  show ?thesis using ne t o p f same by blast
qed

section \<open>Properties of the transport\<close>

lemmas transport_defs =
  run_def new_WhisperWebSocket_def connect_or_same_def connect_def onopen_def onclose_def
  attemptReconnect_def disconnect_def socket_close_def new_WebSocket_def Let_def

lemma attemptReconnect_effect:
  "reconnectAttempts (attemptReconnect t) = reconnectAttempts t + 1
   \<and> timeouts (attemptReconnect t) = timeouts t @ [(reconnectDelay t, Pending)]
   \<and> reconnectDelay (attemptReconnect t) = min (reconnectDelay t * 2) 10000"
  by (simp add: attemptReconnect_def Let_def)

text \<open>
  Claim C3. A transport is created and connects; the connection opens. Then six
  closures with codes other than 1000 follow, each on the socket of the latest attempt,
  the timer set by each of the first five firing before the next closure. The delays of
  the timers set after 0, 1, ..., 5 closures are the prefixes of 1000, 2000, 4000, 8000,
  10000, the attempt count goes from 0 to 5, and the sixth closure sets no timer: the
  list of delays is unchanged and no timer is pending. Each call of
  \<^verbatim>\<open>attemptReconnect\<close> adds one to the count, sets a timer with the current delay and
  then doubles the delay up to 10000.
\<close>

theorem reconnect_delays_then_give_up:
  assumes "c1 \<noteq> 1000" "c2 \<noteq> 1000" "c3 \<noteq> 1000" "c4 \<noteq> 1000" "c5 \<noteq> 1000" "c6 \<noteq> 1000"
  shows "map (\<lambda>n. scheduled_delays
              (run (take n [SocketCloses 0 c1, TimerFires 0, SocketCloses 1 c2, TimerFires 1,
                            SocketCloses 2 c3, TimerFires 2, SocketCloses 3 c4, TimerFires 3,
                            SocketCloses 4 c5, TimerFires 4, SocketCloses 5 c6])
                 (run [Connect, SocketOpens 0] (new_WhisperWebSocket True))))
           [0, 1, 3, 5, 7, 9, 11]
         = [[], [1000], [1000, 2000], [1000, 2000, 4000], [1000, 2000, 4000, 8000],
            [1000, 2000, 4000, 8000, 10000], [1000, 2000, 4000, 8000, 10000]]
       \<and> map (\<lambda>n. reconnectAttempts
              (run (take n [SocketCloses 0 c1, TimerFires 0, SocketCloses 1 c2, TimerFires 1,
                            SocketCloses 2 c3, TimerFires 2, SocketCloses 3 c4, TimerFires 3,
                            SocketCloses 4 c5, TimerFires 4, SocketCloses 5 c6])
                 (run [Connect, SocketOpens 0] (new_WhisperWebSocket True))))
           [0, 1, 3, 5, 7, 9, 11]
         = [0, 1, 2, 3, 4, 5, 5]
       \<and> pending_timers
            (run [SocketCloses 0 c1, TimerFires 0, SocketCloses 1 c2, TimerFires 1,
                  SocketCloses 2 c3, TimerFires 2, SocketCloses 3 c4, TimerFires 3,
                  SocketCloses 4 c5, TimerFires 4, SocketCloses 5 c6]
               (run [Connect, SocketOpens 0] (new_WhisperWebSocket True))) = []
       \<and> (\<forall>t. reconnectAttempts (attemptReconnect t) = reconnectAttempts t + 1
              \<and> timeouts (attemptReconnect t) = timeouts t @ [(reconnectDelay t, Pending)]
              \<and> reconnectDelay (attemptReconnect t) = min (reconnectDelay t * 2) 10000)"
  using assms
  by (simp add: transport_defs scheduled_delays_def pending_timers_def attemptReconnect_effect)

text \<open>The theorem with every closure of code 1006.\<close>

theorem reconnect_delays_then_give_up_witness:
  "scheduled_delays
     (run [SocketCloses 0 1006, TimerFires 0, SocketCloses 1 1006, TimerFires 1,
           SocketCloses 2 1006, TimerFires 2, SocketCloses 3 1006, TimerFires 3,
           SocketCloses 4 1006, TimerFires 4, SocketCloses 5 1006]
        (run [Connect, SocketOpens 0] (new_WhisperWebSocket True)))
     = [1000, 2000, 4000, 8000, 10000]
   \<and> pending_timers
     (run [SocketCloses 0 1006, TimerFires 0, SocketCloses 1 1006, TimerFires 1,
           SocketCloses 2 1006, TimerFires 2, SocketCloses 3 1006, TimerFires 3,
           SocketCloses 4 1006, TimerFires 4, SocketCloses 5 1006]
        (run [Connect, SocketOpens 0] (new_WhisperWebSocket True))) = []"
proof -
  have c: "(1006::nat) \<noteq> 1000" by simp
  note r = reconnect_delays_then_give_up [OF c c c c c c]
  from r show ?thesis by simp
qed

text \<open>
  Claim C6, as stated, fails. After an abnormal closure has set a reconnect timer, an
  explicit \<^verbatim>\<open>disconnect()\<close> leaves the timer pending; when it fires, \<^verbatim>\<open>connect()\<close> runs
  and a second socket is created and becomes the current one.
\<close>

theorem pending_reconnect_fires_after_disconnect:
  "pending_timers (run [Connect, SocketOpens 0, SocketCloses 0 1006, Disconnect]
       (new_WhisperWebSocket True)) = [0]
   \<and> websocket (run [Connect, SocketOpens 0, SocketCloses 0 1006, Disconnect]
       (new_WhisperWebSocket True)) = None
   \<and> websocket (run [Connect, SocketOpens 0, SocketCloses 0 1006, Disconnect, TimerFires 0]
       (new_WhisperWebSocket True)) = Some 1
   \<and> map readyState (sockets (run [Connect, SocketOpens 0, SocketCloses 0 1006, Disconnect, TimerFires 0]
       (new_WhisperWebSocket True))) = [CLOSED, CONNECTING]"
  by (simp add: transport_defs pending_timers_def)

lemma timeouts_connect_or_same: "timeouts (connect_or_same t) = timeouts t"
  by (simp add: connect_or_same_def connect_def)

lemma timeouts_disconnect: "timeouts (disconnect t) = timeouts t"
  by (simp add: disconnect_def Let_def split: option.split)

lemma url_accepted_disconnect: "url_accepted (disconnect t) = url_accepted t"
  by (simp add: disconnect_def Let_def split: option.split)

lemma length_sockets_disconnect: "length (sockets (disconnect t)) = length (sockets t)"
  by (simp add: disconnect_def Let_def split: option.split)

lemma pending_timers_cong: "timeouts t' = timeouts t \<Longrightarrow> pending_timers t' = pending_timers t"
  by (simp add: pending_timers_def)

lemma timer_fires_connects:
  assumes "k \<in> set (pending_timers t)" "url_accepted t"
  shows "websocket (step (TimerFires k) t) = Some (length (sockets t))"
    and "sockets (step (TimerFires k) t) = sockets t @ [new_WebSocket]"
    and "k \<notin> set (pending_timers (step (TimerFires k) t))"
proof -
  have k: "k < length (timeouts t)" "snd (timeouts t ! k) = Pending"
    using assms(1) by (auto simp: pending_timers_def)
  show "websocket (step (TimerFires k) t) = Some (length (sockets t))"
    using k assms(2) by (simp add: connect_or_same_def connect_def)
  show "sockets (step (TimerFires k) t) = sockets t @ [new_WebSocket]"
    using k assms(2) by (simp add: connect_or_same_def connect_def)
  show "k \<notin> set (pending_timers (step (TimerFires k) t))"
    using k assms(2) by (simp add: connect_or_same_def connect_def pending_timers_def)
qed

text \<open>
  Claim C6, amended. An explicit \<^verbatim>\<open>connect()\<close> or \<^verbatim>\<open>disconnect()\<close> (or
  \<^verbatim>\<open>updateConfig\<close>, which calls both) leaves the timers as they are: every pending
  reconnect stays pending. When such a timer fires afterwards
  (and the constructor accepts the URL), \<^verbatim>\<open>connect()\<close> runs: a new socket is created and
  becomes the current one.
\<close>

theorem explicit_calls_keep_pending_reconnect:
  "timeouts (step Connect t) = timeouts t
   \<and> timeouts (step Disconnect t) = timeouts t
   \<and> timeouts (step (UpdateConfig url_ok) t) = timeouts t
   \<and> pending_timers (step Connect t) = pending_timers t
   \<and> pending_timers (step Disconnect t) = pending_timers t
   \<and> (\<forall>k. k \<in> set (pending_timers t) \<and> url_accepted t \<longrightarrow>
         websocket (step (TimerFires k) (step Disconnect t)) = Some (length (sockets t))
       \<and> sockets (step (TimerFires k) (step Disconnect t))
           = sockets (step Disconnect t) @ [new_WebSocket]
       \<and> websocket (step (TimerFires k) (step Connect t)) = Some (Suc (length (sockets t)))
       \<and> sockets (step (TimerFires k) (step Connect t))
           = sockets (step Connect t) @ [new_WebSocket])"
proof (intro conjI allI impI)
  show tc: "timeouts (step Connect t) = timeouts t"
    by (simp add: timeouts_connect_or_same)
  show td: "timeouts (step Disconnect t) = timeouts t"
    by (simp add: timeouts_disconnect)
  show "timeouts (step (UpdateConfig url_ok) t) = timeouts t"
    by (simp add: updateConfig_def Let_def connect_def timeouts_disconnect split: sum.split)
  show pc: "pending_timers (step Connect t) = pending_timers t"
    using tc by (rule pending_timers_cong)
  show pd: "pending_timers (step Disconnect t) = pending_timers t"
    using td by (rule pending_timers_cong)
  fix k assume a: "k \<in> set (pending_timers t) \<and> url_accepted t"
  have d: "k \<in> set (pending_timers (step Disconnect t))" "url_accepted (step Disconnect t)"
    using a pd by (simp_all add: url_accepted_disconnect)
  have c: "k \<in> set (pending_timers (step Connect t))" "url_accepted (step Connect t)"
    using a pc by (simp_all add: connect_or_same_def connect_def)
  show "websocket (step (TimerFires k) (step Disconnect t)) = Some (length (sockets t))"
    using timer_fires_connects(1) [OF d] by (simp add: length_sockets_disconnect)
  show "sockets (step (TimerFires k) (step Disconnect t)) = sockets (step Disconnect t) @ [new_WebSocket]"
    using d by (rule timer_fires_connects(2))
  show "websocket (step (TimerFires k) (step Connect t)) = Some (Suc (length (sockets t)))"
    using timer_fires_connects(1) [OF c] a by (simp add: connect_or_same_def connect_def)
  show "sockets (step (TimerFires k) (step Connect t)) = sockets (step Connect t) @ [new_WebSocket]"
    using c by (rule timer_fires_connects(2))
qed

text \<open>The theorem after one abnormal closure, whose timer is pending.\<close>

theorem explicit_calls_keep_pending_reconnect_witness:
  "0 \<in> set (pending_timers (run [Connect, SocketOpens 0, SocketCloses 0 1006] (new_WhisperWebSocket True)))
   \<and> url_accepted (run [Connect, SocketOpens 0, SocketCloses 0 1006] (new_WhisperWebSocket True))
   \<and> websocket (step (TimerFires 0) (step Disconnect
         (run [Connect, SocketOpens 0, SocketCloses 0 1006] (new_WhisperWebSocket True)))) = Some 1
   \<and> websocket (step (TimerFires 0) (step Connect
         (run [Connect, SocketOpens 0, SocketCloses 0 1006] (new_WhisperWebSocket True)))) = Some 2"
proof -
  let ?t = "run [Connect, SocketOpens 0, SocketCloses 0 1006] (new_WhisperWebSocket True)"
  have h: "0 \<in> set (pending_timers ?t) \<and> url_accepted ?t"
    by (simp add: transport_defs pending_timers_def)
  have l: "length (sockets ?t) = 1"
    by (simp add: transport_defs)
  from explicit_calls_keep_pending_reconnect [of ?t] h
  have "websocket (step (TimerFires 0) (step Disconnect ?t)) = Some (length (sockets ?t))"
    and "websocket (step (TimerFires 0) (step Connect ?t)) = Some (Suc (length (sockets ?t)))"
    by blast+
  with h l show ?thesis by simp
qed










section \<open>Properties of sending\<close>

lemma sendAudioChunk_not_connected:
  "\<not> isConnected t \<or> websocket t = None \<Longrightarrow>
   sendAudioChunk chunk t = Inl (Error ''WebSocket not connected'')"
  by (auto simp: sendAudioChunk_def split: option.split bool.split)

lemma sendAudioChunk_Inr:
  "sendAudioChunk chunk t = Inr t' \<Longrightarrow>
   isConnected t \<and> (\<exists>i. websocket t = Some i \<and> readyState (sockets t ! i) = OPEN
     \<and> t' = t\<lparr>sockets := (sockets t)[i := (sockets t ! i)\<lparr>sent := sent (sockets t ! i) @ [chunk]\<rparr>]\<rparr>)"
  by (auto simp: sendAudioChunk_def split: option.splits bool.splits if_splits)

lemma sendAudioChunk_not_open:
  "isConnected t \<Longrightarrow> websocket t = Some i \<Longrightarrow> readyState (sockets t ! i) \<noteq> OPEN \<Longrightarrow>
   sendAudioChunk chunk t = Inl (Error ''WebSocket not in OPEN state'')"
  by (simp add: sendAudioChunk_def)

lemma handleAudioChunk_skips:
  "\<not> (app_isRecording a \<and> isConnected (app_websocket a)) \<Longrightarrow> handleAudioChunk chunk a = a"
  by (auto simp: handleAudioChunk_def)

lemma handleAudioChunk_failed:
  assumes "app_isRecording a" "isConnected (app_websocket a)"
    "sendAudioChunk chunk (app_websocket a) = Inl e"
  shows "handleAudioChunk chunk a =
     a\<lparr>chunkCount := chunkCount a + 1, app_isRecording := False,
       app_audio := ap_stopRecording (app_audio a),
       app_ui := showSuccess ''Recording stopped'' (updateRecordingState False
                   (showError ''Failed to send audio data'' (app_ui a)))\<rparr>"
  using assms by (simp add: handleAudioChunk_def stopRecording_def Let_def)

lemma handleAudioChunk_sent:
  assumes "app_isRecording a" "isConnected (app_websocket a)"
    "sendAudioChunk chunk (app_websocket a) = Inr t'"
  shows "handleAudioChunk chunk a = a\<lparr>chunkCount := chunkCount a + 1, app_websocket := t'\<rparr>"
  using assms by (simp add: handleAudioChunk_def Let_def)

text \<open>
  Claim C7. \<^verbatim>\<open>sendAudioChunk\<close> on a transport that is not connected (or has no socket)
  throws the error "WebSocket not connected" and sends nothing. It returns normally only
  when the transport is connected and its current socket is open, and then exactly the
  chunk has been passed to that socket; connected with a socket that is not open, it
  throws too. The caller \<^verbatim>\<open>handleAudioChunk\<close> does nothing unless the application is
  recording and the transport is connected; when the send throws, it shows an error and
  stops the recording, so that later capture callbacks forward nothing.
\<close>

theorem send_fails_unless_connected:
  "(\<not> isConnected t \<or> websocket t = None \<longrightarrow>
      sendAudioChunk chunk t = Inl (Error ''WebSocket not connected''))
   \<and> (\<forall>t'. sendAudioChunk chunk t = Inr t' \<longrightarrow>
         isConnected t \<and> (\<exists>i. websocket t = Some i \<and> readyState (sockets t ! i) = OPEN
           \<and> t' = t\<lparr>sockets := (sockets t)[i := (sockets t ! i)\<lparr>sent := sent (sockets t ! i) @ [chunk]\<rparr>]\<rparr>))
   \<and> (\<forall>i. isConnected t \<and> websocket t = Some i \<and> readyState (sockets t ! i) \<noteq> OPEN \<longrightarrow>
         sendAudioChunk chunk t = Inl (Error ''WebSocket not in OPEN state''))
   \<and> (\<not> (app_isRecording a \<and> isConnected (app_websocket a)) \<longrightarrow> handleAudioChunk chunk a = a)
   \<and> (\<forall>e. app_isRecording a \<and> isConnected (app_websocket a)
            \<and> sendAudioChunk chunk (app_websocket a) = Inl e \<longrightarrow>
         \<not> app_isRecording (handleAudioChunk chunk a)
         \<and> \<not> ap_isRecording (app_audio (handleAudioChunk chunk a))
         \<and> (\<forall>inputData now. snd (onaudioprocess inputData now (app_audio (handleAudioChunk chunk a))) = [])
         \<and> app_websocket (handleAudioChunk chunk a) = app_websocket a
         \<and> ErrorNotice ''Failed to send audio data''
              \<in> set (notifications (app_ui (handleAudioChunk chunk a))))
   \<and> (\<forall>t'. app_isRecording a \<and> isConnected (app_websocket a)
            \<and> sendAudioChunk chunk (app_websocket a) = Inr t' \<longrightarrow>
         app_websocket (handleAudioChunk chunk a) = t'
         \<and> app_isRecording (handleAudioChunk chunk a))"
proof (intro conjI allI impI)
  assume "\<not> isConnected t \<or> websocket t = None"
  then show "sendAudioChunk chunk t = Inl (Error ''WebSocket not connected'')"
    by (rule sendAudioChunk_not_connected)
next
  fix t' assume s: "sendAudioChunk chunk t = Inr t'"
  from sendAudioChunk_Inr [OF s] show "isConnected t" by simp
  from sendAudioChunk_Inr [OF s]
  show "\<exists>i. websocket t = Some i \<and> readyState (sockets t ! i) = OPEN
           \<and> t' = t\<lparr>sockets := (sockets t)[i := (sockets t ! i)\<lparr>sent := sent (sockets t ! i) @ [chunk]\<rparr>]\<rparr>"
    by simp
next
  fix i assume "isConnected t \<and> websocket t = Some i \<and> readyState (sockets t ! i) \<noteq> OPEN"
  then show "sendAudioChunk chunk t = Inl (Error ''WebSocket not in OPEN state'')"
    by (simp add: sendAudioChunk_not_open)
next
  assume "\<not> (app_isRecording a \<and> isConnected (app_websocket a))"
  then show "handleAudioChunk chunk a = a" by (rule handleAudioChunk_skips)
next
  fix e
  assume "app_isRecording a \<and> isConnected (app_websocket a)
            \<and> sendAudioChunk chunk (app_websocket a) = Inl e"
  then have h: "handleAudioChunk chunk a =
     a\<lparr>chunkCount := chunkCount a + 1, app_isRecording := False,
       app_audio := ap_stopRecording (app_audio a),
       app_ui := showSuccess ''Recording stopped'' (updateRecordingState False
                   (showError ''Failed to send audio data'' (app_ui a)))\<rparr>"
    by (simp add: handleAudioChunk_failed)
  show "\<not> app_isRecording (handleAudioChunk chunk a)" by (simp add: h)
  show "\<not> ap_isRecording (app_audio (handleAudioChunk chunk a))"
    by (simp add: h ap_stopRecording_def)
  show "snd (onaudioprocess inputData now (app_audio (handleAudioChunk chunk a))) = []"
    for inputData now
    by (simp add: h ap_stopRecording_def onaudioprocess_def)
  show "app_websocket (handleAudioChunk chunk a) = app_websocket a" by (simp add: h)
  show "ErrorNotice ''Failed to send audio data''
              \<in> set (notifications (app_ui (handleAudioChunk chunk a)))"
    by (simp add: h showSuccess_def updateRecordingState_def showError_def)
next
  fix t'
  assume "app_isRecording a \<and> isConnected (app_websocket a)
            \<and> sendAudioChunk chunk (app_websocket a) = Inr t'"
  then have h: "handleAudioChunk chunk a = a\<lparr>chunkCount := chunkCount a + 1, app_websocket := t'\<rparr>"
    and r: "app_isRecording a"
    by (simp_all add: handleAudioChunk_sent)
  show "app_websocket (handleAudioChunk chunk a) = t'" by (simp add: h)
  show "app_isRecording (handleAudioChunk chunk a)" using r by (simp add: h)
qed

text \<open>
  The theorem on a new transport, on a transport whose current socket is still
  connecting, and on an open connection; and for a chunk that arrives while the
  transport is not connected, which the caller does not send.
\<close>

theorem send_fails_unless_connected_witness:
  "sendAudioChunk [1, 2] (new_WhisperWebSocket True) = Inl (Error ''WebSocket not connected'')
   \<and> sendAudioChunk [1, 2] (run [Connect, SocketOpens 0, Connect] (new_WhisperWebSocket True))
        = Inl (Error ''WebSocket not in OPEN state'')
   \<and> \<not> app_isRecording (handleAudioChunk [1, 2]
        \<lparr>app_ui = new_UI,
         app_audio = \<lparr>initialized = True, ap_isRecording = True, lastChunkTime = 0,
                      onAudioChunk_set = True\<rparr>,
         app_websocket = run [Connect, SocketOpens 0, Connect] (new_WhisperWebSocket True),
         app_isRecording = True, chunkCount = 0\<rparr>)
   \<and> map sent (sockets (app_websocket (handleAudioChunk [1, 2]
        \<lparr>app_ui = new_UI,
         app_audio = \<lparr>initialized = True, ap_isRecording = True, lastChunkTime = 0,
                      onAudioChunk_set = True\<rparr>,
         app_websocket = run [Connect, SocketOpens 0] (new_WhisperWebSocket True),
         app_isRecording = True, chunkCount = 0\<rparr>))) = [[[1, 2]]]
   \<and> handleAudioChunk [1, 2]
        \<lparr>app_ui = new_UI,
         app_audio = \<lparr>initialized = True, ap_isRecording = True, lastChunkTime = 0,
                      onAudioChunk_set = True\<rparr>,
         app_websocket = new_WhisperWebSocket True,
         app_isRecording = True, chunkCount = 0\<rparr>
      = \<lparr>app_ui = new_UI,
         app_audio = \<lparr>initialized = True, ap_isRecording = True, lastChunkTime = 0,
                      onAudioChunk_set = True\<rparr>,
         app_websocket = new_WhisperWebSocket True,
         app_isRecording = True, chunkCount = 0\<rparr>"
proof -
  let ?n = "new_WhisperWebSocket True"
  let ?t = "run [Connect, SocketOpens 0, Connect] (new_WhisperWebSocket True)"
  let ?o = "run [Connect, SocketOpens 0] (new_WhisperWebSocket True)"
  let ?ap = "\<lparr>initialized = True, ap_isRecording = True, lastChunkTime = 0, onAudioChunk_set = True\<rparr>"
  let ?a = "\<lparr>app_ui = new_UI, app_audio = ?ap, app_websocket = ?t,
         app_isRecording = True, chunkCount = 0\<rparr>"
  let ?b = "\<lparr>app_ui = new_UI, app_audio = ?ap, app_websocket = ?o,
         app_isRecording = True, chunkCount = 0\<rparr>"
  have n: "\<not> isConnected ?n" by (simp add: new_WhisperWebSocket_def)
  have t: "isConnected ?t \<and> websocket ?t = Some 1 \<and> readyState (sockets ?t ! 1) \<noteq> OPEN"
    by (simp add: run_def new_WhisperWebSocket_def connect_or_same_def connect_def onopen_def
        new_WebSocket_def)
  have o: "sendAudioChunk [1, 2] ?o =
      Inr (?o\<lparr>sockets := [\<lparr>readyState = OPEN, sent = [[1, 2]], close_code = None\<rparr>]\<rparr>)"
    by (simp add: sendAudioChunk_def run_def new_WhisperWebSocket_def connect_or_same_def
        connect_def onopen_def new_WebSocket_def)
  have oc: "isConnected ?o"
    by (simp add: run_def new_WhisperWebSocket_def connect_or_same_def connect_def onopen_def
        new_WebSocket_def)
  have 1: "sendAudioChunk [1, 2] ?n = Inl (Error ''WebSocket not connected'')"
    using send_fails_unless_connected [of ?n "[1, 2]" ?a] n by blast
  have 2: "sendAudioChunk [1, 2] ?t = Inl (Error ''WebSocket not in OPEN state'')"
    using send_fails_unless_connected [of ?t "[1, 2]" ?a] t by blast
  have 3: "\<not> app_isRecording (handleAudioChunk [1, 2] ?a)"
    using send_fails_unless_connected [of ?t "[1, 2]" ?a] t 2 by simp
  have 4: "app_websocket (handleAudioChunk [1, 2] ?b)
      = ?o\<lparr>sockets := [\<lparr>readyState = OPEN, sent = [[1, 2]], close_code = None\<rparr>]\<rparr>"
    using send_fails_unless_connected [of ?o "[1, 2]" ?b] o oc by simp
  let ?c = "\<lparr>app_ui = new_UI, app_audio = ?ap, app_websocket = ?n,
         app_isRecording = True, chunkCount = 0\<rparr>"
  have g: "\<not> (app_isRecording ?c \<and> isConnected (app_websocket ?c))"
    using n by simp
  have 5: "handleAudioChunk [1, 2] ?c = ?c"
    using send_fails_unless_connected [of ?n "[1, 2]" ?c] g by blast
  have 34: "\<not> app_isRecording (handleAudioChunk [1, 2] ?a)
      \<and> map sent (sockets (app_websocket (handleAudioChunk [1, 2] ?b))) = [[[1, 2]]]"
    using 3 by (simp add: 4)
  show ?thesis using 1 2 34 5 by blast
qed

section \<open>Properties of the pacing\<close>

lemma onaudioprocess_recording:
  assumes "ap_isRecording ap" "onAudioChunk_set ap"
  shows "onaudioprocess frame now ap =
     (if now - lastChunkTime ap \<ge> 10
      then (ap\<lparr>lastChunkTime := now\<rparr>, [convertToPCM frame]) else (ap, []))"
  using assms by (simp add: onaudioprocess_def Let_def)

lemma onaudioprocess_keeps_flags:
  "ap_isRecording (fst (onaudioprocess frame now ap)) = ap_isRecording ap"
  "onAudioChunk_set (fst (onaudioprocess frame now ap)) = onAudioChunk_set ap"
  by (simp_all add: onaudioprocess_def Let_def)

lemma length_pacer_run: "length (pacer_run cbs ap) = length cbs"
  by (induction cbs arbitrary: ap) simp_all

lemma pacer_run_nth:
  assumes "ap_isRecording ap" "onAudioChunk_set ap" "k < length cbs"
  shows "pacer_run cbs ap ! k =
     (if fst (cbs ! k) - last_time ap (take k (map fst cbs)) (take k (pacer_run cbs ap)) \<ge> 10
      then [convertToPCM (snd (cbs ! k))] else [])"
  using assms
proof (induction cbs arbitrary: ap k)
  case Nil
  then show ?case by simp
next
  case (Cons cb cbs)
  let ?r = "onaudioprocess (snd cb) (fst cb) ap"
  have r: "?r = (if fst cb - lastChunkTime ap \<ge> 10
      then (ap\<lparr>lastChunkTime := fst cb\<rparr>, [convertToPCM (snd cb)]) else (ap, []))"
    using Cons.prems(1,2) by (rule onaudioprocess_recording)
  show ?case
  proof (cases k)
    case 0
    then show ?thesis by (simp add: r last_time_def)
  next
    case (Suc j)
    have j: "j < length cbs" using Cons.prems(3) Suc by simp
    have flags: "ap_isRecording (fst ?r)" "onAudioChunk_set (fst ?r)"
      using Cons.prems(1,2) by (simp_all add: onaudioprocess_keeps_flags)
    have ih: "pacer_run cbs (fst ?r) ! j =
       (if fst (cbs ! j) - last_time (fst ?r) (take j (map fst cbs)) (take j (pacer_run cbs (fst ?r))) \<ge> 10
        then [convertToPCM (snd (cbs ! j))] else [])"
      using flags j by (rule Cons.IH)
    have lt: "last_time ap (take k (map fst (cb # cbs))) (take k (pacer_run (cb # cbs) ap))
        = last_time (fst ?r) (take j (map fst cbs)) (take j (pacer_run cbs (fst ?r)))"
      unfolding Suc by (simp add: last_time_def r split: option.split)
    show ?thesis
      unfolding lt using ih Suc by simp
  qed
qed

lemma pacer_run_spaced:
  assumes "ap_isRecording ap" "onAudioChunk_set ap" "spaced (lastChunkTime ap) (map fst cbs)"
  shows "pacer_run cbs ap = map (\<lambda>cb. [convertToPCM (snd cb)]) cbs"
  using assms
proof (induction cbs arbitrary: ap)
  case Nil
  then show ?case by simp
next
  case (Cons cb cbs)
  have g: "fst cb - lastChunkTime ap \<ge> 10" and rest: "spaced (fst cb) (map fst cbs)"
    using Cons.prems(3) by simp_all
  have r: "onaudioprocess (snd cb) (fst cb) ap = (ap\<lparr>lastChunkTime := fst cb\<rparr>, [convertToPCM (snd cb)])"
    using Cons.prems(1,2) g by (simp add: onaudioprocess_recording)
  have "pacer_run cbs (ap\<lparr>lastChunkTime := fst cb\<rparr>) = map (\<lambda>cb. [convertToPCM (snd cb)]) cbs"
    using Cons.prems(1,2) rest by (intro Cons.IH) simp_all
  then show ?case by (simp add: r)
qed

text \<open>
  Claim C5. While recording, with the chunk callback set, a capture callback forwards a
  chunk if and only if its timestamp is at least 10 ms after that of the latest forwarded
  chunk (before the first forwarded chunk: after \<^verbatim>\<open>lastChunkTime\<close>, which
  \<^verbatim>\<open>startRecording\<close> sets to 0). What a callback forwards is the conversion of its own
  frame or nothing; a callback that forwards nothing leaves the state as it was, so its
  frame is kept nowhere. When every callback comes at least 10 ms after the one before,
  every frame is forwarded. Right after \<^verbatim>\<open>startRecording\<close> a callback is forwarded when
  its timestamp is at least 10, which every value of \<^verbatim>\<open>Date.now()\<close> is.
\<close>

theorem pacer_forwards_iff_interval_elapsed:
  assumes "ap_isRecording ap" "onAudioChunk_set ap"
  shows "length (pacer_run cbs ap) = length cbs
     \<and> (\<forall>k<length cbs.
          (pacer_run cbs ap ! k \<noteq> [])
            = (fst (cbs ! k) - last_time ap (take k (map fst cbs)) (take k (pacer_run cbs ap)) \<ge> 10)
          \<and> (pacer_run cbs ap ! k = [] \<or> pacer_run cbs ap ! k = [convertToPCM (snd (cbs ! k))]))
     \<and> (spaced (lastChunkTime ap) (map fst cbs) \<longrightarrow>
          pacer_run cbs ap = map (\<lambda>cb. [convertToPCM (snd cb)]) cbs)
     \<and> (\<forall>frame now. snd (onaudioprocess frame now ap) = [] \<longrightarrow>
          fst (onaudioprocess frame now ap) = ap)
     \<and> (\<forall>ap' frame now. ap_startRecording ap = Inr ap' \<longrightarrow>
          (snd (onaudioprocess frame now ap') \<noteq> []) = (now \<ge> 10))"
proof (intro conjI allI impI)
  show "length (pacer_run cbs ap) = length cbs" by (rule length_pacer_run)
next
  fix ap' frame now
  assume "ap_startRecording ap = Inr ap'"
  then have "ap' = ap\<lparr>ap_isRecording := True, lastChunkTime := 0\<rparr>"
    by (auto simp: ap_startRecording_def split: if_splits)
  then show "(snd (onaudioprocess frame now ap') \<noteq> []) = (now \<ge> 10)"
    using assms by (simp add: onaudioprocess_def Let_def)
next
  fix k assume k: "k < length cbs"
  note n = pacer_run_nth [OF assms k]
  show "(pacer_run cbs ap ! k \<noteq> [])
            = (fst (cbs ! k) - last_time ap (take k (map fst cbs)) (take k (pacer_run cbs ap)) \<ge> 10)"
    by (subst n) simp
  show "pacer_run cbs ap ! k = [] \<or> pacer_run cbs ap ! k = [convertToPCM (snd (cbs ! k))]"
    by (subst (1 2) n) simp
next
  assume "spaced (lastChunkTime ap) (map fst cbs)"
  with assms show "pacer_run cbs ap = map (\<lambda>cb. [convertToPCM (snd cb)]) cbs"
    by (rule pacer_run_spaced)
next
  fix frame now
  assume "snd (onaudioprocess frame now ap) = []"
  then show "fst (onaudioprocess frame now ap) = ap"
    using assms by (simp add: onaudioprocess_recording split: if_splits)
qed

text \<open>
  The theorem for callbacks at 1000 and 1064 ms (both forwarded) and at 1000, 1005 and
  1064 ms (the second is dropped, the third forwarded); and for a first callback at
  1000 ms (forwarded) and at 5 ms (dropped, the state unchanged).
\<close>

theorem pacer_forwards_iff_interval_elapsed_witness:
  "spaced 0 [1000, 1064]
   \<and> pacer_run [(1000, [Fin 1]), (1064, [Fin 0])]
        \<lparr>initialized = True, ap_isRecording = True, lastChunkTime = 0, onAudioChunk_set = True\<rparr>
      = [[convertToPCM [Fin 1]], [convertToPCM [Fin 0]]]
   \<and> pacer_run [(1000, [Fin 1]), (1005, [Fin (- 1)]), (1064, [Fin 0])]
        \<lparr>initialized = True, ap_isRecording = True, lastChunkTime = 0, onAudioChunk_set = True\<rparr> ! 1
      = []
   \<and> pacer_run [(1000, [Fin 1]), (1005, [Fin (- 1)]), (1064, [Fin 0])]
        \<lparr>initialized = True, ap_isRecording = True, lastChunkTime = 0, onAudioChunk_set = True\<rparr> ! 2
      = [convertToPCM [Fin 0]]
   \<and> ap_startRecording
        \<lparr>initialized = True, ap_isRecording = True, lastChunkTime = 0, onAudioChunk_set = True\<rparr>
      = Inr \<lparr>initialized = True, ap_isRecording = True, lastChunkTime = 0, onAudioChunk_set = True\<rparr>
   \<and> snd (onaudioprocess [Fin 1] 1000
        \<lparr>initialized = True, ap_isRecording = True, lastChunkTime = 0, onAudioChunk_set = True\<rparr>)
      \<noteq> []
   \<and> snd (onaudioprocess [Fin 1] 5
        \<lparr>initialized = True, ap_isRecording = True, lastChunkTime = 0, onAudioChunk_set = True\<rparr>)
      = []
   \<and> fst (onaudioprocess [Fin 1] 5
        \<lparr>initialized = True, ap_isRecording = True, lastChunkTime = 0, onAudioChunk_set = True\<rparr>)
      = \<lparr>initialized = True, ap_isRecording = True, lastChunkTime = 0, onAudioChunk_set = True\<rparr>"
proof -
  let ?ap = "\<lparr>initialized = True, ap_isRecording = True, lastChunkTime = 0, onAudioChunk_set = True\<rparr>"
  let ?c1 = "[(1000, [Fin 1]), (1064, [Fin 0])] :: (int \<times> jsnum list) list"
  let ?c2 = "[(1000, [Fin 1]), (1005, [Fin (- 1)]), (1064, [Fin 0])] :: (int \<times> jsnum list) list"
  have r: "ap_isRecording ?ap" and c: "onAudioChunk_set ?ap" by simp_all
  have sp: "spaced (lastChunkTime ?ap) (map fst ?c1)" by simp
  have 1: "pacer_run ?c1 ?ap = [[convertToPCM [Fin 1]], [convertToPCM [Fin 0]]]"
    using pacer_forwards_iff_interval_elapsed [OF r c, of ?c1] sp by simp
  have l1: "\<not> fst (?c2 ! 1) - last_time ?ap (take 1 (map fst ?c2)) (take 1 (pacer_run ?c2 ?ap)) \<ge> 10"
    by (simp add: last_time_def onaudioprocess_def Let_def)
  have l2: "fst (?c2 ! 2) - last_time ?ap (take 2 (map fst ?c2)) (take 2 (pacer_run ?c2 ?ap)) \<ge> 10"
    by (simp add: last_time_def onaudioprocess_def Let_def)
  have A: "(pacer_run ?c2 ?ap ! k \<noteq> [])
        = (fst (?c2 ! k) - last_time ?ap (take k (map fst ?c2)) (take k (pacer_run ?c2 ?ap)) \<ge> 10)
      \<and> (pacer_run ?c2 ?ap ! k = [] \<or> pacer_run ?c2 ?ap ! k = [convertToPCM (snd (?c2 ! k))])"
    if "k < length ?c2" for k
    using pacer_forwards_iff_interval_elapsed [OF r c, of ?c2] that by blast
  have n1: "1 < length ?c2" and n2: "2 < length ?c2" by simp_all
  have 2: "pacer_run ?c2 ?ap ! 1 = []"
    using A [OF n1] l1 by blast
  have "pacer_run ?c2 ?ap ! 2 = [convertToPCM (snd (?c2 ! 2))]"
    using A [OF n2] l2 by blast
  then have 3: "pacer_run ?c2 ?ap ! 2 = [convertToPCM [Fin 0]]" by simp
  note T = pacer_forwards_iff_interval_elapsed [OF r c, of "[]"]
  have st: "ap_startRecording ?ap = Inr ?ap"
    by (simp add: ap_startRecording_def)
  from T have B0: "\<forall>ap' frame now. ap_startRecording ?ap = Inr ap' \<longrightarrow>
          (snd (onaudioprocess frame now ap') \<noteq> []) = (now \<ge> 10)"
    by (elim conjE)
  have B: "(snd (onaudioprocess frame now ?ap) \<noteq> []) = (now \<ge> 10)" for frame now
    using B0 st by blast
  from T have D0: "\<forall>frame now. snd (onaudioprocess frame now ?ap) = [] \<longrightarrow>
          fst (onaudioprocess frame now ?ap) = ?ap"
    by (elim conjE)
  have 4: "snd (onaudioprocess [Fin 1] 1000 ?ap) \<noteq> []"
    using B [of "[Fin 1]" 1000] by simp
  have 5: "snd (onaudioprocess [Fin 1] 5 ?ap) = []"
    using B [of "[Fin 1]" 5] by simp
  have 6: "fst (onaudioprocess [Fin 1] 5 ?ap) = ?ap"
    using D0 5 by blast
  have 123: "spaced 0 [1000, 1064]
      \<and> pacer_run ?c1 ?ap = [[convertToPCM [Fin 1]], [convertToPCM [Fin 0]]]
      \<and> pacer_run ?c2 ?ap ! 1 = []
      \<and> pacer_run ?c2 ?ap ! 2 = [convertToPCM [Fin 0]]"
    using 1 2 3 by simp
  show ?thesis using 123 st 4 5 6 by blast
qed

section \<open>Properties of resampling\<close>

lemma resample_loop_map:
  "i \<le> n \<Longrightarrow> length out = n \<Longrightarrow>
   resample_loop xs ratio n i out =
     take i out @ map (\<lambda>j. or_zero (array_get xs (Math_round_double (nat_times_double j ratio)))) [i..<n]"
proof (induction xs ratio n i out rule: resample_loop.induct)
  case (1 xs ratio n i out)
  let ?f = "\<lambda>j. or_zero (array_get xs (Math_round_double (nat_times_double j ratio)))"
  show ?case
  proof (cases "i < n")
    case True
    have step: "resample_loop xs ratio n i out = resample_loop xs ratio n (Suc i) (out[i := ?f i])"
      using True by (subst resample_loop.simps) simp
    have ih: "resample_loop xs ratio n (Suc i) (out[i := ?f i]) =
        take (Suc i) (out[i := ?f i]) @ map ?f [Suc i..<n]"
      using "1.IH" [OF True] True "1.prems" by simp
    have tk: "take (Suc i) (out[i := ?f i]) = take i out @ [?f i]"
      using True "1.prems" by (simp add: take_Suc_conv_app_nth)
    have up: "[i..<n] = i # [Suc i..<n]"
      using True by (simp add: upt_conv_Cons)
    show ?thesis
      by (simp only: step ih tk up list.map append_assoc append_Cons append_Nil)
  next
    case False
    with "1.prems" have "i = n" by simp
    with "1.prems" show ?thesis by (subst resample_loop.simps) simp
  qed
qed

lemma resampleAudio_map:
  assumes "0 < src" "0 < tgt" "src \<noteq> tgt"
  shows "resampleAudio xs src tgt =
     Inr (map (\<lambda>i. or_zero (array_get xs (resample_index i src tgt)))
            [0..<nat (resample_length (length xs) src tgt)])"
  using assms
  by (simp add: resampleAudio_def Let_def resample_loop_map resample_index_def resample_length_def)

lemma or_zero_array_get:
  "or_zero (array_get xs k) =
     (if 0 \<le> k \<and> k < int (length xs) \<and> xs ! nat k \<noteq> NaN then xs ! nat k else Fin 0)"
  by (simp add: or_zero_def array_get_def)

subsection \<open>The rounding of the double arithmetic\<close>

text \<open>
  The arithmetic defined above rounds as double precision does: for positive \<open>p\<close> and
  \<open>q\<close> the significand of \<^term>\<open>nearest_double p q\<close> has 53 bits and its value is within
  half a unit in the last place of \<open>p / q\<close>, hence within \<open>p / q / 2\<^sup>5\<^sup>3\<close>; and
  \<^const>\<open>Math_round_double\<close> is \<^const>\<open>round\<close> of the value. From this the computed length
  and index are bounded by exact roundings.
\<close>

lemma two_powi_nonneg: "0 \<le> k \<Longrightarrow> (2::real) powi k = 2 ^ nat k"
  by (simp add: power_int_def)

lemma two_powi_neg: "k < 0 \<Longrightarrow> (2::real) powi k = 1 / 2 ^ nat (- k)"
  by (simp add: power_int_def field_simps)

lemma bitlen_real_bounds:
  assumes "0 < p"
  shows "2 powi (bitlen p - 1) \<le> real_of_int p" "real_of_int p < 2 powi bitlen p"
proof -
  from bitlen_bounds [OF assms]
  have lo: "2 ^ nat (bitlen p - 1) \<le> p" and hi: "p < 2 ^ nat (bitlen p)" by simp_all
  have b: "1 \<le> bitlen p"
    using assms bitlen_eq_zero_iff [of p] bitlen_nonneg [of p] by linarith
  have "real_of_int (2 ^ nat (bitlen p - 1)) \<le> real_of_int p"
    using lo by (simp only: of_int_le_iff)
  then show "2 powi (bitlen p - 1) \<le> real_of_int p"
    using b by (simp add: two_powi_nonneg)
  have "real_of_int p < real_of_int (2 ^ nat (bitlen p))"
    using hi by (simp only: of_int_less_iff)
  then show "real_of_int p < 2 powi bitlen p"
    using b by (simp add: two_powi_nonneg)
qed

lemma floor_log2_test:
  assumes "0 < p" "0 < q"
  shows "(if 0 \<le> k then q * 2 ^ nat k \<le> p else q \<le> p * 2 ^ nat (- k))
         = (2 powi k \<le> real_of_int p / real_of_int q)"
proof (cases "0 \<le> k")
  case True
  have "(q * 2 ^ nat k \<le> p) = (real_of_int (q * 2 ^ nat k) \<le> real_of_int p)"
    by (simp only: of_int_le_iff)
  also have "\<dots> = (2 ^ nat k \<le> real_of_int p / real_of_int q)"
    using assms(2) by (simp add: pos_le_divide_eq mult.commute)
  finally show ?thesis using True by (simp add: two_powi_nonneg)
next
  case False
  have "(q \<le> p * 2 ^ nat (- k)) = (real_of_int q \<le> real_of_int (p * 2 ^ nat (- k)))"
    by (simp only: of_int_le_iff)
  also have "\<dots> = (1 / 2 ^ nat (- k) \<le> real_of_int p / real_of_int q)"
    using assms(2) by (simp add: field_simps)
  finally show ?thesis using False by (simp add: two_powi_neg)
qed

lemma floor_log2_bounds:
  assumes "0 < p" "0 < q"
  shows "2 powi floor_log2 p q \<le> real_of_int p / real_of_int q"
    and "real_of_int p / real_of_int q < 2 powi (floor_log2 p q + 1)"
proof -
  let ?k = "bitlen p - bitlen q"
  let ?x = "real_of_int p / real_of_int q"
  have qpos: "0 < real_of_int q" using assms(2) by simp
  note bp = bitlen_real_bounds [OF assms(1)]
  note bq = bitlen_real_bounds [OF assms(2)]
  have up: "?x < 2 powi (?k + 1)"
  proof -
    have "real_of_int p < 2 powi bitlen p" by (rule bp(2))
    also have "\<dots> = 2 powi (?k + 1) * 2 powi (bitlen q - 1)"
      by (simp flip: power_int_add)
    also have "\<dots> \<le> 2 powi (?k + 1) * real_of_int q"
      using bq(1) by (simp add: mult_left_mono)
    finally show ?thesis using qpos by (simp add: pos_divide_less_eq)
  qed
  have low: "2 powi (?k - 1) \<le> ?x"
  proof -
    have "2 powi (?k - 1) * real_of_int q \<le> 2 powi (?k - 1) * 2 powi bitlen q"
      using bq(2) by (simp add: mult_left_mono)
    also have "\<dots> = 2 powi (bitlen p - 1)"
      by (simp flip: power_int_add)
    also have "\<dots> \<le> real_of_int p" by (rule bp(1))
    finally show ?thesis using qpos by (simp add: pos_le_divide_eq)
  qed
  have t: "(if 0 \<le> ?k then q * 2 ^ nat ?k \<le> p else q \<le> p * 2 ^ nat (- ?k)) = (2 powi ?k \<le> ?x)"
    using assms by (rule floor_log2_test)
  show "2 powi floor_log2 p q \<le> ?x"
    unfolding floor_log2_def Let_def t using low by simp
  show "?x < 2 powi (floor_log2 p q + 1)"
    unfolding floor_log2_def Let_def t using up by (simp add: not_le)
qed

lemma dbl_value_powi: "dbl_value d = real_of_int (dbl_m d) * 2 powi dbl_e d"
  by (simp add: dbl_value_def two_powi_nonneg two_powi_neg not_le)

lemma round_half_even_cases:
  assumes "0 < d"
  shows "round_half_even n d = n div d \<and> 2 * (n mod d) \<le> d
       \<or> round_half_even n d = n div d + 1 \<and> d \<le> 2 * (n mod d)"
  by (auto simp: round_half_even_def Let_def)

lemma real_div_mod:
  assumes "0 < d"
  shows "real_of_int n / real_of_int d = real_of_int (n div d) + real_of_int (n mod d) / real_of_int d"
proof -
  have "real_of_int n = real_of_int (n div d) * real_of_int d + real_of_int (n mod d)"
    by (metis of_int_add of_int_mult div_mult_mod_eq)
  then show ?thesis using assms by (simp add: field_simps)
qed

lemma round_half_even_error:
  assumes "0 < d"
  shows "\<bar>real_of_int (round_half_even n d) - real_of_int n / real_of_int d\<bar> \<le> 1 / 2"
proof -
  let ?r = "real_of_int (n mod d)" and ?d = "real_of_int d"
  have d: "0 < ?d" using assms by simp
  have r0: "0 \<le> ?r" using assms by simp
  have r1: "?r < ?d" using assms by simp
  note e = real_div_mod [OF assms, of n]
  from round_half_even_cases [OF assms, of n] show ?thesis
  proof
    assume a: "round_half_even n d = n div d \<and> 2 * (n mod d) \<le> d"
    then have "2 * ?r \<le> ?d" by (metis of_int_le_iff of_int_mult of_int_numeral)
    then have "?r / ?d \<le> 1 / 2" using d by (simp add: field_simps)
    moreover have "0 \<le> ?r / ?d" using r0 d by simp
    ultimately show ?thesis using a e by simp
  next
    assume a: "round_half_even n d = n div d + 1 \<and> d \<le> 2 * (n mod d)"
    then have "?d \<le> 2 * ?r" by (metis of_int_le_iff of_int_mult of_int_numeral)
    then have "1 / 2 \<le> ?r / ?d" using d by (simp add: field_simps)
    moreover have "?r / ?d < 1" using r1 d by simp
    ultimately show ?thesis using a e by simp
  qed
qed

lemma round_half_even_between:
  assumes "0 < d" "a * d \<le> n" "n < b * d"
  shows "a \<le> round_half_even n d" "round_half_even n d \<le> b"
proof -
  have m: "0 \<le> n mod d" "n mod d < d" using assms(1) by simp_all
  have eq: "n = (n div d) * d + n mod d" by simp
  have "a * d < (n div d) * d + d" using assms(2) eq m(2) by linarith
  then have "a * d < (n div d + 1) * d" by (simp add: algebra_simps)
  then have "a < n div d + 1" using assms(1) by (simp only: mult_less_cancel_right_pos)
  then have lo: "a \<le> n div d" by simp
  have "(n div d) * d \<le> n" using eq m(1) by linarith
  then have "(n div d) * d < b * d" using assms(3) by linarith
  then have hi: "n div d < b" using assms(1) by (simp only: mult_less_cancel_right_pos)
  from round_half_even_cases [OF assms(1), of n] lo hi
  show "a \<le> round_half_even n d" "round_half_even n d \<le> b" by auto
qed

lemma nearest_double_correct:
  assumes "0 < p" "0 < q"
  shows "2 ^ 52 \<le> dbl_m (nearest_double p q)"
    and "dbl_m (nearest_double p q) < 2 ^ 53"
    and "\<bar>dbl_value (nearest_double p q) - real_of_int p / real_of_int q\<bar>
           \<le> 2 powi (dbl_e (nearest_double p q) - 1)"
    and "\<bar>dbl_value (nearest_double p q) - real_of_int p / real_of_int q\<bar>
           \<le> real_of_int p / real_of_int q / 2 ^ 53"
proof -
  define x where "x = real_of_int p / real_of_int q"
  define e where "e = floor_log2 p q - 52"
  define num where "num = (if 0 \<le> e then p else p * 2 ^ nat (- e))"
  define den where "den = (if 0 \<le> e then q * 2 ^ nat e else q)"
  define y where "y = x * 2 powi (- e)"
  define m where "m = round_half_even num den"
  have den: "0 < den" using assms(2) by (simp add: den_def)
  have rden: "0 < real_of_int den" using den by simp
  have quot: "real_of_int num / real_of_int den = y"
  proof (cases "0 \<le> e")
    case True
    then have "2 powi (- e) = 1 / (2::real) ^ nat e"
      by (cases "e = 0") (simp_all add: two_powi_neg)
    then show ?thesis using True by (simp add: num_def den_def y_def x_def)
  next
    case False
    then have "2 powi (- e) = (2::real) ^ nat (- e)" by (simp add: two_powi_nonneg)
    then show ?thesis using False by (simp add: num_def den_def y_def x_def)
  qed
  have ylo: "2 ^ 52 \<le> y"
  proof -
    have "2 powi floor_log2 p q \<le> x"
      unfolding x_def using assms by (rule floor_log2_bounds)
    then have "2 powi floor_log2 p q * 2 powi (- e) \<le> y"
      unfolding y_def by (simp add: mult_right_mono)
    moreover have "2 powi floor_log2 p q * 2 powi (- e) = (2::real) powi 52"
      by (simp add: e_def flip: power_int_add)
    ultimately show ?thesis by simp
  qed
  have yhi: "y < 2 ^ 53"
  proof -
    have "x < 2 powi (floor_log2 p q + 1)"
      unfolding x_def using assms by (rule floor_log2_bounds)
    then have "y < 2 powi (floor_log2 p q + 1) * 2 powi (- e)"
      unfolding y_def by (simp add: mult_strict_right_mono)
    moreover have "2 powi (floor_log2 p q + 1) * 2 powi (- e) = (2::real) powi 53"
      by (simp add: e_def flip: power_int_add)
    ultimately show ?thesis by simp
  qed
  have ilo: "2 ^ 52 * den \<le> num"
  proof -
    have "2 ^ 52 * real_of_int den \<le> real_of_int num"
      using ylo rden unfolding quot [symmetric] by (simp add: pos_le_divide_eq)
    then have "real_of_int (2 ^ 52 * den) \<le> real_of_int num" by simp
    then show ?thesis by (simp only: of_int_le_iff)
  qed
  have ihi: "num < 2 ^ 53 * den"
  proof -
    have "real_of_int num < 2 ^ 53 * real_of_int den"
      using yhi rden unfolding quot [symmetric] by (simp add: pos_divide_less_eq)
    then have "real_of_int num < real_of_int (2 ^ 53 * den)" by simp
    then show ?thesis by (simp only: of_int_less_iff)
  qed
  have mlo: "2 ^ 52 \<le> m" and mhi: "m \<le> 2 ^ 53"
    unfolding m_def using den ilo ihi by (rule round_half_even_between)+
  have merr: "\<bar>real_of_int m - y\<bar> \<le> 1 / 2"
    unfolding m_def quot [symmetric] using den by (rule round_half_even_error)
  have xy: "x = y * 2 powi e"
    unfolding y_def by (simp add: mult.assoc flip: power_int_add)
  have err: "\<bar>real_of_int m * 2 powi e - x\<bar> \<le> 2 powi (e - 1)"
  proof -
    have "\<bar>real_of_int m * 2 powi e - x\<bar> = \<bar>real_of_int m - y\<bar> * 2 powi e"
      unfolding xy by (simp add: abs_mult flip: left_diff_distrib)
    also have "\<dots> \<le> 1 / 2 * 2 powi e"
      using merr by (rule mult_right_mono) simp
    also have "\<dots> = 2 powi (e - 1)"
      by (simp add: power_int_diff)
    finally show ?thesis .
  qed
  have nd: "nearest_double p q = (if m = 2 ^ 53 then Dbl (2 ^ 52) (e + 1) else Dbl m e)"
    using assms(1) by (simp add: nearest_double_def Let_def e_def m_def num_def den_def)
  have val: "dbl_value (nearest_double p q) = real_of_int m * 2 powi e"
    by (cases "m = 2 ^ 53") (simp_all add: nd dbl_value_powi power_int_add)
  have "2 powi (e - 1) = 2 powi floor_log2 p q / (2::real) ^ 53"
    by (simp add: e_def power_int_diff)
  also have "\<dots> \<le> x / 2 ^ 53"
    unfolding x_def using floor_log2_bounds(1) [OF assms] by (simp add: divide_right_mono)
  finally have rel: "2 powi (e - 1) \<le> x / 2 ^ 53" .
  show "\<bar>dbl_value (nearest_double p q) - real_of_int p / real_of_int q\<bar>
           \<le> real_of_int p / real_of_int q / 2 ^ 53"
    using err rel unfolding val x_def by linarith
  show "2 ^ 52 \<le> dbl_m (nearest_double p q)"
    using mlo by (simp add: nd)
  show "dbl_m (nearest_double p q) < 2 ^ 53"
    using mhi by (simp add: nd)
  show "\<bar>dbl_value (nearest_double p q) - real_of_int p / real_of_int q\<bar>
           \<le> 2 powi (dbl_e (nearest_double p q) - 1)"
  proof (cases "m = 2 ^ 53")
    case True
    have v: "dbl_value (nearest_double p q) = real_of_int m * 2 powi e"
      using True by (simp add: nd dbl_value_powi power_int_add)
    have ex: "dbl_e (nearest_double p q) - 1 = e"
      using True by (simp add: nd)
    have "2 powi (e - 1) \<le> (2::real) powi e"
      by (rule power_int_increasing) simp_all
    with err have "\<bar>real_of_int m * 2 powi e - x\<bar> \<le> 2 powi e" by linarith
    then show ?thesis unfolding v ex x_def .
  next
    case False
    with err show ?thesis by (simp add: nd dbl_value_powi x_def [symmetric])
  qed
qed

lemma Math_round_double_round:
  "Math_round_double d = round (dbl_value d)"
proof (cases "0 \<le> dbl_e d")
  case True
  then have "dbl_value d = real_of_int (dbl_m d * 2 ^ nat (dbl_e d))"
    by (simp add: dbl_value_def)
  then have "round (dbl_value d) = dbl_m d * 2 ^ nat (dbl_e d)"
    by (simp only: round_of_int)
  with True show ?thesis by (simp add: Math_round_double_def)
next
  case False
  let ?n = "nat (- dbl_e d)"
  have "dbl_value d + 1 / 2 = real_of_int (2 * dbl_m d + 2 ^ ?n) / real_of_int (2 * 2 ^ ?n)"
    using False by (simp add: dbl_value_def field_simps)
  then have "round (dbl_value d) = \<lfloor>real_of_int (2 * dbl_m d + 2 ^ ?n) / real_of_int (2 * 2 ^ ?n)\<rfloor>"
    by (simp only: round_def)
  also have "\<dots> = (2 * dbl_m d + 2 ^ ?n) div (2 * 2 ^ ?n)"
    by (rule floor_divide_of_int_eq)
  finally show ?thesis using False by (simp add: Math_round_double_def)
qed

lemma nearest_double_value_pos:
  assumes "0 < p" "0 < q"
  shows "0 < dbl_m (nearest_double p q)" "0 < dbl_value (nearest_double p q)"
proof -
  have "(0::int) < 2 ^ 52" by simp
  with nearest_double_correct(1) [OF assms] show m: "0 < dbl_m (nearest_double p q)"
    by linarith
  then show "0 < dbl_value (nearest_double p q)"
    by (simp add: dbl_value_powi)
qed

lemma nat_div_nat_error:
  assumes "0 < a" "0 < b"
  shows "\<bar>dbl_value (nat_div_nat a b) - real a / real b\<bar> \<le> real a / real b / 2 ^ 53"
    and "0 < dbl_m (nat_div_nat a b)" and "0 < dbl_value (nat_div_nat a b)"
proof -
  have p: "0 < int a" "0 < int b" using assms by simp_all
  show "\<bar>dbl_value (nat_div_nat a b) - real a / real b\<bar> \<le> real a / real b / 2 ^ 53"
    using nearest_double_correct(4) [OF p] by (simp add: nat_div_nat_def)
  show "0 < dbl_m (nat_div_nat a b)" "0 < dbl_value (nat_div_nat a b)"
    using nearest_double_value_pos [OF p] by (simp_all add: nat_div_nat_def)
qed

lemma nat_times_double_error:
  assumes "0 < dbl_m d"
  shows "\<bar>dbl_value (nat_times_double i d) - real i * dbl_value d\<bar>
           \<le> real i * dbl_value d / 2 ^ 53"
proof (cases "i = 0")
  case True
  then show ?thesis
    by (simp add: nat_times_double_def nearest_double_def dbl_value_def)
next
  case False
  show ?thesis
  proof (cases "0 \<le> dbl_e d")
    case True
    have p: "0 < int i * dbl_m d * 2 ^ nat (dbl_e d)" "(0::int) < 1"
      using False assms by simp_all
    have x: "real_of_int (int i * dbl_m d * 2 ^ nat (dbl_e d)) / real_of_int 1
        = real i * dbl_value d"
      using True by (simp add: dbl_value_def)
    show ?thesis
      using nearest_double_correct(4) [OF p] True unfolding x
      by (simp add: nat_times_double_def)
  next
    case neg: False
    have p: "0 < int i * dbl_m d" "(0::int) < 2 ^ nat (- dbl_e d)"
      using False assms by simp_all
    have x: "real_of_int (int i * dbl_m d) / real_of_int (2 ^ nat (- dbl_e d))
        = real i * dbl_value d"
      using neg by (simp add: dbl_value_def)
    show ?thesis
      using nearest_double_correct(4) [OF p] neg unfolding x
      by (simp add: nat_times_double_def)
  qed
qed

lemma nat_div_double_error:
  assumes "0 < dbl_m d"
  shows "\<bar>dbl_value (nat_div_double n d) - real n / dbl_value d\<bar>
           \<le> real n / dbl_value d / 2 ^ 53"
proof (cases "n = 0")
  case True
  then show ?thesis
    by (simp add: nat_div_double_def nearest_double_def dbl_value_def)
next
  case False
  show ?thesis
  proof (cases "0 \<le> dbl_e d")
    case True
    have p: "0 < int n" "0 < dbl_m d * 2 ^ nat (dbl_e d)"
      using False assms by simp_all
    have x: "real_of_int (int n) / real_of_int (dbl_m d * 2 ^ nat (dbl_e d))
        = real n / dbl_value d"
      using True by (simp add: dbl_value_def)
    show ?thesis
      using nearest_double_correct(4) [OF p] True unfolding x
      by (simp add: nat_div_double_def)
  next
    case neg: False
    have p: "0 < int n * 2 ^ nat (- dbl_e d)" "0 < dbl_m d"
      using False assms by simp_all
    have x: "real_of_int (int n * 2 ^ nat (- dbl_e d)) / real_of_int (dbl_m d)
        = real n / dbl_value d"
      using neg by (simp add: dbl_value_def)
    show ?thesis
      using nearest_double_correct(4) [OF p] neg unfolding x
      by (simp add: nat_div_double_def)
  qed
qed

lemma rounding_chain_product:
  fixes u t z :: real
  assumes ut: "\<bar>u - t\<bar> \<le> t / 2 ^ 53" and zu: "\<bar>z - u\<bar> \<le> u / 2 ^ 53" and t0: "0 \<le> t"
  shows "t - t / 2 ^ 51 \<le> z" "z \<le> t + t / 2 ^ 51"
proof -
  note f = abs_le_D1 [OF ut] abs_le_D2 [OF ut] abs_le_D1 [OF zu] abs_le_D2 [OF zu]
  show "t - t / 2 ^ 51 \<le> z" using f t0 by simp
  show "z \<le> t + t / 2 ^ 51" using f t0 by simp
qed

lemma rounding_chain_quotient:
  fixes u S w :: real
  assumes us: "\<bar>u - S\<bar> \<le> u / 2 ^ 53" and wu: "\<bar>w - u\<bar> \<le> u / 2 ^ 53" and u0: "0 \<le> u"
  shows "S - S / 2 ^ 51 \<le> w" "w \<le> S + S / 2 ^ 51"
proof -
  note f = abs_le_D1 [OF us] abs_le_D2 [OF us] abs_le_D1 [OF wu] abs_le_D2 [OF wu]
  show "S - S / 2 ^ 51 \<le> w" using f u0 by simp
  show "w \<le> S + S / 2 ^ 51" using f u0 by simp
qed

lemma resample_index_between:
  assumes "0 < src" "0 < tgt"
  shows "round (real i * real src / real tgt - real i * real src / real tgt / 2 ^ 51)
           \<le> resample_index i src tgt"
    and "resample_index i src tgt
           \<le> round (real i * real src / real tgt + real i * real src / real tgt / 2 ^ 51)"
proof -
  define R where "R = real src / real tgt"
  define r where "r = dbl_value (nat_div_nat src tgt)"
  define z where "z = dbl_value (nat_times_double i (nat_div_nat src tgt))"
  define t where "t = real i * R"
  define u where "u = real i * r"
  have R: "0 < R" using assms by (simp add: R_def)
  have t0: "0 \<le> t" using R by (simp add: t_def)
  note e = nat_div_nat_error [OF assms]
  have a: "\<bar>r - R\<bar> \<le> R / 2 ^ 53" using e(1) by (simp add: r_def R_def)
  have "\<bar>u - t\<bar> = real i * \<bar>r - R\<bar>"
    by (simp add: u_def t_def abs_mult flip: right_diff_distrib)
  also have "\<dots> \<le> real i * (R / 2 ^ 53)"
    using a by (rule mult_left_mono) simp
  finally have ut: "\<bar>u - t\<bar> \<le> t / 2 ^ 53" by (simp add: t_def)
  have zu: "\<bar>z - u\<bar> \<le> u / 2 ^ 53"
    using nat_times_double_error [OF e(2), of i] by (simp add: z_def u_def r_def)
  have idx: "resample_index i src tgt = round z"
    by (simp add: resample_index_def Math_round_double_round z_def)
  have tx: "t = real i * real src / real tgt" by (simp add: t_def R_def)
  note b = rounding_chain_product [OF ut zu t0]
  show "round (real i * real src / real tgt - real i * real src / real tgt / 2 ^ 51)
           \<le> resample_index i src tgt"
    unfolding idx tx [symmetric] using b(1) by (rule round_mono)
  show "resample_index i src tgt
           \<le> round (real i * real src / real tgt + real i * real src / real tgt / 2 ^ 51)"
    unfolding idx tx [symmetric] using b(2) by (rule round_mono)
qed

lemma resample_length_between:
  assumes "0 < src" "0 < tgt"
  shows "round (real n * real tgt / real src - real n * real tgt / real src / 2 ^ 51)
           \<le> resample_length n src tgt"
    and "resample_length n src tgt
           \<le> round (real n * real tgt / real src + real n * real tgt / real src / 2 ^ 51)"
proof -
  define R where "R = real src / real tgt"
  define r where "r = dbl_value (nat_div_nat src tgt)"
  define w where "w = dbl_value (nat_div_double n (nat_div_nat src tgt))"
  define S where "S = real n / R"
  define u where "u = real n / r"
  have R: "0 < R" using assms by (simp add: R_def)
  note e = nat_div_nat_error [OF assms]
  have r: "0 < r" using e(3) by (simp add: r_def)
  have u0: "0 \<le> u" using r by (simp add: u_def)
  have a: "\<bar>r - R\<bar> \<le> R / 2 ^ 53" using e(1) by (simp add: r_def R_def)
  have q: "\<bar>(r - R) / R\<bar> \<le> 1 / 2 ^ 53"
    using a R by (simp add: abs_divide pos_divide_le_eq)
  have "u - S = u * ((R - r) / R)"
    using r R by (simp add: u_def S_def field_simps)
  then have "\<bar>u - S\<bar> = u * \<bar>(r - R) / R\<bar>"
    using u0 by (simp add: abs_mult abs_minus_commute abs_divide)
  also have "\<dots> \<le> u * (1 / 2 ^ 53)"
    using q u0 by (rule mult_left_mono)
  finally have us: "\<bar>u - S\<bar> \<le> u / 2 ^ 53" by simp
  have wu: "\<bar>w - u\<bar> \<le> u / 2 ^ 53"
    using nat_div_double_error [OF e(2), of n] by (simp add: w_def u_def r_def)
  have len: "resample_length n src tgt = round w"
    by (simp add: resample_length_def Math_round_double_round w_def)
  have Sx: "S = real n * real tgt / real src" by (simp add: S_def R_def)
  note b = rounding_chain_quotient [OF us wu u0]
  show "round (real n * real tgt / real src - real n * real tgt / real src / 2 ^ 51)
           \<le> resample_length n src tgt"
    unfolding len Sx [symmetric] using b(1) by (rule round_mono)
  show "resample_length n src tgt
           \<le> round (real n * real tgt / real src + real n * real tgt / real src / 2 ^ 51)"
    unfolding len Sx [symmetric] using b(2) by (rule round_mono)
qed

lemma round_between:
  fixes x :: real
  assumes "0 \<le> x"
  shows "round (x - x / 2 ^ 51) \<le> round x" "round x \<le> round (x + x / 2 ^ 51)"
proof -
  have "x - x / 2 ^ 51 \<le> x" using assms by simp
  then show "round (x - x / 2 ^ 51) \<le> round x" by (rule round_mono)
  have "x \<le> x + x / 2 ^ 51" using assms by simp
  then show "round x \<le> round (x + x / 2 ^ 51)" by (rule round_mono)
qed

subsection \<open>The result of resampling\<close>

text \<open>
  Claim C2, amended. For positive rates, \<^verbatim>\<open>resampleAudio\<close> returns its input when the
  rates are equal. Otherwise the output has length \<^verbatim>\<open>Math.round(length / ratio)\<close> and
  output sample \<open>i\<close> is the input sample at index \<^verbatim>\<open>Math.round(i * ratio)\<close>, where
  \<^verbatim>\<open>ratio = originalSampleRate / targetSampleRate\<close> and the quotients and the product are
  rounded to double precision; an index outside the input, and a sample that is NaN,
  give 0. The length lies between the exact roundings of \<open>x \<cdot> (1 - 2\<^sup>-\<^sup>5\<^sup>1)\<close> and
  \<open>x \<cdot> (1 + 2\<^sup>-\<^sup>5\<^sup>1)\<close> for \<open>x = inputLength \<cdot> targetRate / sourceRate\<close>, and index \<open>i\<close> between
  those for \<open>x = i \<cdot> sourceRate / targetRate\<close>; so they are the \<open>round(x)\<close> of the
  specification whenever these two roundings agree.
\<close>

theorem resampleAudio_nearest_sample:
  assumes "0 < src" "0 < tgt"
  shows "resampleAudio xs src src = Inr xs
     \<and> (src \<noteq> tgt \<longrightarrow>
          resampleAudio xs src tgt =
            Inr (map (\<lambda>i. or_zero (array_get xs (resample_index i src tgt)))
                   [0..<nat (resample_length (length xs) src tgt)]))
     \<and> (\<forall>k. or_zero (array_get xs k) =
            (if 0 \<le> k \<and> k < int (length xs) \<and> xs ! nat k \<noteq> NaN then xs ! nat k else Fin 0))
     \<and> resample_length (length xs) src tgt
          = Math_round_double (nat_div_double (length xs) (nat_div_nat src tgt))
     \<and> (\<forall>i. resample_index i src tgt
          = Math_round_double (nat_times_double i (nat_div_nat src tgt)))
     \<and> (\<forall>n. round (real n * real tgt / real src - real n * real tgt / real src / 2 ^ 51)
              \<le> resample_length n src tgt
            \<and> resample_length n src tgt
              \<le> round (real n * real tgt / real src + real n * real tgt / real src / 2 ^ 51))
     \<and> (\<forall>i. round (real i * real src / real tgt - real i * real src / real tgt / 2 ^ 51)
              \<le> resample_index i src tgt
            \<and> resample_index i src tgt
              \<le> round (real i * real src / real tgt + real i * real src / real tgt / 2 ^ 51))
     \<and> (\<forall>n. round (real n * real tgt / real src - real n * real tgt / real src / 2 ^ 51)
              = round (real n * real tgt / real src + real n * real tgt / real src / 2 ^ 51)
            \<longrightarrow> resample_length n src tgt = spec_resample_length n src tgt)
     \<and> (\<forall>i. round (real i * real src / real tgt - real i * real src / real tgt / 2 ^ 51)
              = round (real i * real src / real tgt + real i * real src / real tgt / 2 ^ 51)
            \<longrightarrow> resample_index i src tgt = spec_resample_index i src tgt)"
proof (intro conjI impI allI)
  show "resampleAudio xs src src = Inr xs" by (simp add: resampleAudio_def)
  show "resample_length (length xs) src tgt
          = Math_round_double (nat_div_double (length xs) (nat_div_nat src tgt))"
    by (simp add: resample_length_def)
  show "resample_index i src tgt = Math_round_double (nat_times_double i (nat_div_nat src tgt))"
    for i by (simp add: resample_index_def)
  show "or_zero (array_get xs k) =
            (if 0 \<le> k \<and> k < int (length xs) \<and> xs ! nat k \<noteq> NaN then xs ! nat k else Fin 0)"
    for k by (rule or_zero_array_get)
  show "round (real n * real tgt / real src - real n * real tgt / real src / 2 ^ 51)
              \<le> resample_length n src tgt" for n
    using assms by (rule resample_length_between)
  show "resample_length n src tgt
              \<le> round (real n * real tgt / real src + real n * real tgt / real src / 2 ^ 51)" for n
    using assms by (rule resample_length_between)
  show "round (real i * real src / real tgt - real i * real src / real tgt / 2 ^ 51)
              \<le> resample_index i src tgt" for i
    using assms by (rule resample_index_between)
  show "resample_index i src tgt
              \<le> round (real i * real src / real tgt + real i * real src / real tgt / 2 ^ 51)" for i
    using assms by (rule resample_index_between)
next
  assume "src \<noteq> tgt"
  with assms show "resampleAudio xs src tgt =
            Inr (map (\<lambda>i. or_zero (array_get xs (resample_index i src tgt)))
                   [0..<nat (resample_length (length xs) src tgt)])"
    by (rule resampleAudio_map)
next
  fix n
  let ?x = "real n * real tgt / real src"
  assume eq: "round (?x - ?x / 2 ^ 51) = round (?x + ?x / 2 ^ 51)"
  have x0: "0 \<le> ?x" by simp
  have m: "round ?x = round (?x + ?x / 2 ^ 51)"
    using round_between [OF x0] eq by linarith
  have "resample_length n src tgt = round (?x + ?x / 2 ^ 51)"
    using resample_length_between [OF assms, of n] eq by linarith
  then show "resample_length n src tgt = spec_resample_length n src tgt"
    using m by (simp add: spec_resample_length_def)
next
  fix i
  let ?x = "real i * real src / real tgt"
  assume eq: "round (?x - ?x / 2 ^ 51) = round (?x + ?x / 2 ^ 51)"
  have x0: "0 \<le> ?x" by simp
  have m: "round ?x = round (?x + ?x / 2 ^ 51)"
    using round_between [OF x0] eq by linarith
  have "resample_index i src tgt = round (?x + ?x / 2 ^ 51)"
    using resample_index_between [OF assms, of i] eq by linarith
  then show "resample_index i src tgt = spec_resample_index i src tgt"
    using m by (simp add: spec_resample_index_def)
qed

subsection \<open>The arithmetic at particular rates\<close>

text \<open>
  The bit lengths of the numbers that occur at the rates used below are proved first;
  with them the simplifier computes the ratios, lengths and indices.
\<close>

lemma bitlen_eqI:
  assumes "2 ^ n \<le> x" "x < 2 ^ Suc n"
  shows "bitlen x = int (Suc n)"
proof -
  have x: "0 < x" using assms(1) by (smt (verit) zero_less_power)
  from bitlen_bounds [OF x]
  have lo: "2 ^ nat (bitlen x - 1) \<le> x" and hi: "x < 2 ^ nat (bitlen x)" by simp_all
  have "(2::int) ^ n < 2 ^ nat (bitlen x)" using assms(1) hi by linarith
  then have a: "n < nat (bitlen x)" by (simp add: power_strict_increasing_iff)
  have "(2::int) ^ nat (bitlen x - 1) < 2 ^ Suc n" using assms(2) lo by linarith
  then have b: "nat (bitlen x - 1) < Suc n" by (simp only: power_strict_increasing_iff one_less_numeral_iff semiring_norm)
  from a b show ?thesis by linarith
qed

lemma bitlen_values:
  "bitlen 8000 = 13"
  "bitlen 8960 = 14"
  "bitlen 16000 = 14"
  "bitlen 37800 = 16"
  "bitlen 48000 = 16"
  "bitlen 2251799813685248 = 52"
  "bitlen 4503599627370496 = 53"
  "bitlen 5044031582654956 = 53"
  "bitlen 5319877059831398 = 53"
  "bitlen 6755399441055744 = 53"
  "bitlen 9007199254740992 = 54"
  "bitlen 13510798882111488 = 54"
  "bitlen 15762598695796736 = 54"
  "bitlen 18014398509481984 = 55"
  "bitlen 22517998136852480 = 55"
  "bitlen 27021597764222976 = 55"
  "bitlen 63050394783186944 = 56"
  "bitlen 1063975411966279600 = 60"
  "bitlen 1125899906842624000 = 60"
  using bitlen_eqI [of 12 8000]
    bitlen_eqI [of 13 8960]
    bitlen_eqI [of 13 16000]
    bitlen_eqI [of 15 37800]
    bitlen_eqI [of 15 48000]
    bitlen_eqI [of 51 2251799813685248]
    bitlen_eqI [of 52 4503599627370496]
    bitlen_eqI [of 52 5044031582654956]
    bitlen_eqI [of 52 5319877059831398]
    bitlen_eqI [of 52 6755399441055744]
    bitlen_eqI [of 53 9007199254740992]
    bitlen_eqI [of 53 13510798882111488]
    bitlen_eqI [of 53 15762598695796736]
    bitlen_eqI [of 54 18014398509481984]
    bitlen_eqI [of 54 22517998136852480]
    bitlen_eqI [of 54 27021597764222976]
    bitlen_eqI [of 55 63050394783186944]
    bitlen_eqI [of 59 1063975411966279600]
    bitlen_eqI [of 59 1125899906842624000]
  by simp_all

lemmas double_defs =
  nat_div_nat_def nat_div_double_def nat_times_double_def Math_round_double_def
  nearest_double_def floor_log2_def round_half_even_def Let_def

lemma ratio_37800: "nat_div_nat 37800 16000 = Dbl 5319877059831398 (- 51)"
  by (simp add: double_defs bitlen_values)

lemma ratio_8960: "nat_div_nat 8960 16000 = Dbl 5044031582654956 (- 53)"
  by (simp add: double_defs bitlen_values)

lemma ratio_8000: "nat_div_nat 8000 16000 = Dbl 4503599627370496 (- 53)"
  by (simp add: double_defs bitlen_values)

lemma ratio_48000: "nat_div_nat 48000 16000 = Dbl 6755399441055744 (- 51)"
  by (simp add: double_defs bitlen_values)

lemma resample_values_37800:
  "resample_length 500 37800 16000 = 212" "resample_index 200 37800 16000 = 472"
  by (simp_all add: resample_length_def resample_index_def ratio_37800
      nat_div_double_def nat_times_double_def Math_round_double_def
      nearest_double_def floor_log2_def round_half_even_def Let_def bitlen_values)

lemma resample_values_8960: "resample_length 7 8960 16000 = 12"
  by (simp add: resample_length_def ratio_8960
      nat_div_double_def nat_times_double_def Math_round_double_def
      nearest_double_def floor_log2_def round_half_even_def Let_def bitlen_values)

lemma resample_values_8000:
  "resample_length 3 8000 16000 = 6"
  "resample_index 0 8000 16000 = 0" "resample_index (Suc 0) 8000 16000 = 1"
  "resample_index 2 8000 16000 = 1" "resample_index 3 8000 16000 = 2"
  "resample_index 4 8000 16000 = 2" "resample_index 5 8000 16000 = 3"
  by (simp_all add: resample_length_def resample_index_def ratio_8000
      nat_div_double_def nat_times_double_def Math_round_double_def
      nearest_double_def floor_log2_def round_half_even_def Let_def bitlen_values)

lemma resample_values_48000:
  "resample_length 7 48000 16000 = 2"
  "resample_index 0 48000 16000 = 0" "resample_index (Suc 0) 48000 16000 = 3"
  by (simp_all add: resample_length_def resample_index_def ratio_48000
      nat_div_double_def nat_times_double_def Math_round_double_def
      nearest_double_def floor_log2_def round_half_even_def Let_def bitlen_values)

text \<open>
  Claim C2, as stated, fails. From 37800 Hz to 16000 Hz output sample 200 is input
  sample 472, and \<open>round(200 \<cdot> 37800 / 16000) = round(472.5) = 473\<close>: the double nearest to
  37800/16000 is below 2.3625, and 200 times it rounds to the double just below 472.5.
  From 8960 Hz to 16000 Hz an input of 7 samples gives 12, and
  \<open>round(7 \<cdot> 16000 / 8960) = round(12.5) = 13\<close>.
\<close>

theorem resample_differs_from_exact_rounding:
  "(case resampleAudio (map Fin (map real [0..<500])) 37800 16000 of
      Inl e \<Rightarrow> None | Inr ys \<Rightarrow> Some (ys ! 200)) = Some (Fin 472)
   \<and> map Fin (map real [0..<500]) ! nat (spec_resample_index 200 37800 16000) = Fin 473
   \<and> (case resampleAudio (replicate 7 (Fin 1)) 8960 16000 of
      Inl e \<Rightarrow> None | Inr ys \<Rightarrow> Some (length ys)) = Some 12
   \<and> spec_resample_length 7 8960 16000 = 13"
proof -
  have a: "resampleAudio (map Fin (map real [0..<500])) 37800 16000 =
     Inr (map (\<lambda>i. or_zero (array_get (map Fin (map real [0..<500])) (resample_index i 37800 16000)))
            [0..<nat (resample_length (length (map Fin (map real [0..<500]))) 37800 16000)])"
    by (rule resampleAudio_map) simp_all
  have 1: "(case resampleAudio (map Fin (map real [0..<500])) 37800 16000 of
      Inl e \<Rightarrow> None | Inr ys \<Rightarrow> Some (ys ! 200)) = Some (Fin 472)"
    unfolding a by (simp add: resample_values_37800 or_zero_array_get)
  have s1: "spec_resample_index 200 37800 16000 = 473"
    by (simp add: spec_resample_index_def round_def)
  have 2: "map Fin (map real [0..<500]) ! nat (spec_resample_index 200 37800 16000) = Fin 473"
    unfolding s1 by simp
  have b: "resampleAudio (replicate 7 (Fin 1)) 8960 16000 =
     Inr (map (\<lambda>i. or_zero (array_get (replicate 7 (Fin 1)) (resample_index i 8960 16000)))
            [0..<nat (resample_length (length (replicate 7 (Fin 1 :: jsnum))) 8960 16000)])"
    by (rule resampleAudio_map) simp_all
  have 3: "(case resampleAudio (replicate 7 (Fin 1)) 8960 16000 of
      Inl e \<Rightarrow> None | Inr ys \<Rightarrow> Some (length ys)) = Some 12"
    unfolding b by (simp add: resample_values_8960)
  have 4: "spec_resample_length 7 8960 16000 = 13"
    by (simp add: spec_resample_length_def round_def)
  show ?thesis using 1 2 3 4 by blast
qed

text \<open>
  The theorem at equal rates, from 8000 Hz to 16000 Hz (a NaN sample and the index 3
  outside the input give 0) and from 48000 Hz to 16000 Hz, where the length for 7
  samples and the index of output sample 1 are those of the specification.
\<close>

theorem resampleAudio_nearest_sample_witness:
  "resampleAudio [Fin 1, NaN, Fin 3] 16000 16000 = Inr [Fin 1, NaN, Fin 3]
   \<and> resampleAudio [Fin 1, NaN, Fin 3] 8000 16000
        = Inr [Fin 1, Fin 0, Fin 0, Fin 3, Fin 3, Fin 0]
   \<and> resampleAudio [Fin 1, Fin 2, Fin 3, Fin 4, Fin 5, Fin 6, Fin 7] 48000 16000
        = Inr [Fin 1, Fin 4]
   \<and> resample_length 7 48000 16000 = spec_resample_length 7 48000 16000
   \<and> resample_index 1 48000 16000 = spec_resample_index 1 48000 16000"
proof -
  have p: "(0::nat) < 16000" "(0::nat) < 8000" "(0::nat) < 48000"
    "(8000::nat) \<noteq> 16000" "(48000::nat) \<noteq> 16000" by simp_all
  have u6: "[0..<6] = [0, 1, 2, 3, 4, 5]" and u2: "[0..<2] = [0, 1]"
    by (simp_all add: upt_rec)
  let ?xs = "[Fin 1, Fin 2, Fin 3, Fin 4, Fin 5, Fin 6, Fin 7]"
  have l3: "length [Fin 1, NaN, Fin 3] = 3" and l7: "length ?xs = 7" by simp_all
  have 1: "resampleAudio [Fin 1, NaN, Fin 3] 16000 16000 = Inr [Fin 1, NaN, Fin 3]"
    using resampleAudio_nearest_sample [OF p(1) p(1), of "[Fin 1, NaN, Fin 3]"] by blast
  have "resampleAudio [Fin 1, NaN, Fin 3] 8000 16000 =
      Inr (map (\<lambda>i. or_zero (array_get [Fin 1, NaN, Fin 3] (resample_index i 8000 16000)))
             [0..<nat (resample_length 3 8000 16000)])"
    using resampleAudio_nearest_sample [OF p(2) p(1), of "[Fin 1, NaN, Fin 3]", unfolded l3] p(4)
    by blast
  then have 2: "resampleAudio [Fin 1, NaN, Fin 3] 8000 16000
        = Inr [Fin 1, Fin 0, Fin 0, Fin 3, Fin 3, Fin 0]"
    by (simp add: resample_values_8000 u6 or_zero_array_get)
  have "resampleAudio ?xs 48000 16000 =
      Inr (map (\<lambda>i. or_zero (array_get ?xs (resample_index i 48000 16000)))
             [0..<nat (resample_length 7 48000 16000)])"
    using resampleAudio_nearest_sample [OF p(3) p(1), of ?xs, unfolded l7] p(5) by blast
  then have 3: "resampleAudio ?xs 48000 16000 = Inr [Fin 1, Fin 4]"
    by (simp add: resample_values_48000 u2 or_zero_array_get)
  have rl: "round (real 7 * real 16000 / real 48000 - real 7 * real 16000 / real 48000 / 2 ^ 51)
      = round (real 7 * real 16000 / real 48000 + real 7 * real 16000 / real 48000 / 2 ^ 51)"
    by (simp add: round_def)
  have ri: "round (real 1 * real 48000 / real 16000 - real 1 * real 48000 / real 16000 / 2 ^ 51)
      = round (real 1 * real 48000 / real 16000 + real 1 * real 48000 / real 16000 / 2 ^ 51)"
    by (simp add: round_def)
  have 4: "resample_length 7 48000 16000 = spec_resample_length 7 48000 16000"
    using resampleAudio_nearest_sample [OF p(3) p(1), of ?xs] rl by blast
  have 5: "resample_index 1 48000 16000 = spec_resample_index 1 48000 16000"
    using resampleAudio_nearest_sample [OF p(3) p(1), of ?xs] ri by blast
  show ?thesis using 1 2 3 4 5 by blast
qed

end
